theory Spec2Isabelle
  imports Complex_Main "HOL-Library.Sublist"
begin

section \<open>JavaScript values and objects\<close>

text \<open>
  The values that travel through the package: configuration objects, request parameters and
  request options are plain JavaScript data. A number is a finite JavaScript number (a
  rational; NaN and the infinities do not occur in such data), a string is a list of
  characters, and an object is the list of its own properties in insertion order. Property
  names are ordinary names: a name with a meaning of its own to the engine, such as
  \<open>__proto__\<close>, is outside this model.
\<close>

datatype json =
    JNull
  | JBool bool
  | JNum rat
  | JStr string
  | JArr "json list"
  | JObj "(string \<times> json) list"

text \<open>
  Inside a \<open>json\<close> value an object is the list of its properties in insertion order;
  \<open>get_prop\<close> reads a property (\<open>None\<close> for \<open>undefined\<close>) and \<open>set_prop\<close> is the
  assignment \<open>o[k] = v\<close>: an existing property keeps its place and takes the new value, a
  new property is added after the others.
\<close>

definition get_prop :: "(string \<times> 'v) list \<Rightarrow> string \<Rightarrow> 'v option" where
  "get_prop ob k = map_of ob k"

fun set_prop :: "string \<Rightarrow> 'v \<Rightarrow> (string \<times> 'v) list \<Rightarrow> (string \<times> 'v) list" where
  "set_prop k v [] = [(k, v)]"
| "set_prop k v (p # ps) = (if fst p = k then (k, v) # ps else p # set_prop k v ps)"

text \<open>
  The objects handed to the dispatcher (request parameters, options, the action table) are
  only read by key and merged, so they are maps from property names to values. The object
  spread \<open>{ ...a, ...b }\<close> assigns the properties of \<open>a\<close>, then those of \<open>b\<close>: on a name
  that both have, \<open>b\<close> wins.
\<close>

type_synonym 'v object = "string \<rightharpoonup> 'v"

definition spread :: "'v object \<Rightarrow> 'v object \<Rightarrow> 'v object" where
  "spread a b = a ++ b"

text \<open>\<open>xs.indexOf(x)\<close>: the first index of \<open>x\<close>, or \<open>-1\<close>.\<close>

fun indexOf :: "'a list \<Rightarrow> 'a \<Rightarrow> int" where
  "indexOf [] x = -1"
| "indexOf (y # ys) x = (if y = x then 0 else (let i = indexOf ys x in if i = -1 then -1 else i + 1))"

text \<open>
  \<open>s.match(p)\<close> for a pattern string \<open>p\<close> without regular-expression metacharacters: the
  regular expression built from \<open>p\<close> matches when \<open>p\<close> occurs in \<open>s\<close>, case-sensitively.
  The result is used for its truthiness only.
\<close>

fun str_match :: "string \<Rightarrow> string \<Rightarrow> bool" where
  "str_match [] p = (p = [])"
| "str_match (c # cs) p = (prefix p (c # cs) \<or> str_match cs p)"

section \<open>The action dispatcher (class ApiGwRequest)\<close>

text \<open>
  The response of the RPC client: an object with a numeric \<open>code\<close>, whatever it holds
  under \<open>message\<close> (\<open>None\<close> when it has no such property), and any further fields (the
  extension part of the record).
\<close>

record response =
  code :: int
  message :: "json option"

text \<open>
  What a call can throw: the \<open>HttpError\<close> of this module, constructed from the \<open>code\<close> and
  the \<open>message\<close> of the response; the \<open>TypeError\<close> of the engine, when a method is called
  on a value that does not have it; or whatever the RPC client threw, which
  \<open>catch (err) { throw err; }\<close> passes on as it is.
\<close>

datatype 'e thrown = HttpError int "json option" | TypeError | Raised 'e

text \<open>
  The RPC client's \<open>request(data, options, isV3)\<close>: an external collaborator, taken as a
  parameter. It answers with a response or throws.
\<close>

type_synonym ('e, 'r) capi = "json object \<Rightarrow> json object \<Rightarrow> bool \<Rightarrow> 'e + 'r response_scheme"

text \<open>
  \<open>CheckExistsFromError(err)\<close> calls \<open>err.message.match(...)\<close>. Only a string has \<open>match\<close>:
  for a response without \<open>message\<close>, or with a \<open>message\<close> that is \<open>null\<close>, a number, a
  boolean, an array or an object, the call throws a \<open>TypeError\<close>. The response itself is an
  object, so the test \<open>err &&\<close> passes.
\<close>

definition CheckExistsFromError :: "'r response_scheme \<Rightarrow> 'e thrown + bool" where
  "CheckExistsFromError err =
     (case message err of
        Some (JStr m) \<Rightarrow>
          Inr (if str_match m ''does not exist'' then False
               else if str_match m ''not found'' then False
               else True)
      | _ \<Rightarrow> Inl TypeError)"

definition actionList :: "string list" where
  "actionList =
     [''CreateService'', ''DeleteService'', ''DescribeService'', ''ReleaseService'',
      ''UnReleaseService'', ''CreateApi'', ''DescribeApi'', ''DeleteApi'', ''ModifyApi'',
      ''DescribeApisStatus'', ''CreateUsagePlan'', ''DescribeApiUsagePlan'',
      ''DescribeUsagePlanSecretIds'', ''DescribeUsagePlan'', ''DeleteUsagePlan'',
      ''ModifyUsagePlan'', ''CreateApiKey'', ''DeleteApiKey'', ''DisableApiKey'',
      ''EnableApiKey'', ''DescribeApiKeysStatus'', ''BindSecretIds'', ''UnBindSecretIds'',
      ''BindEnvironment'', ''UnBindEnvironment'']"

definition needCheckAction :: "string list" where
  "needCheckAction = [''UnBindSecretIds'', ''UnBindEnvironment'', ''DeleteUsagePlan'', ''DeleteApiKey'']"

text \<open>
  \<open>request(Action, data, options, isV3 = false, needCheck = false)\<close>. The RPC client is
  called with \<open>{ Action, ...data }\<close>, with
  \<open>{ ...(options || {}), ...{ path: '/v2/index.php' } }\<close> (an omitted \<open>options\<close> is \<open>None\<close>)
  and with \<open>isV3\<close>. A rejected promise is \<open>Inl\<close>, a resolved one \<open>Inr\<close>.
\<close>

definition request ::
  "('e, 'r) capi \<Rightarrow> string \<Rightarrow> json object \<Rightarrow> json object option \<Rightarrow> bool option \<Rightarrow> bool option
     \<Rightarrow> 'e thrown + 'r response_scheme" where
  "request apiRequest Action data options isV3 needCheck =
     (let isV3' = (case isV3 of None \<Rightarrow> False | Some b \<Rightarrow> b);
          needCheck' = (case needCheck of None \<Rightarrow> False | Some b \<Rightarrow> b)
      in case apiRequest
                (spread [''Action'' \<mapsto> JStr Action] data)
                (spread (case options of None \<Rightarrow> Map.empty | Some ob \<Rightarrow> ob)
                   [''path'' \<mapsto> JStr ''/v2/index.php''])
                isV3' of
           Inl err \<Rightarrow> Inl (Raised err)
         | Inr res \<Rightarrow>
             if code res \<noteq> 0 then
               (if needCheck' then
                  (case CheckExistsFromError res of
                     Inl err \<Rightarrow> Inl err
                   | Inr exists \<Rightarrow>
                       if exists then Inl (HttpError (code res) (message res)) else Inr res)
                else Inl (HttpError (code res) (message res)))
             else Inr res)"

type_synonym ('e, 'r) api = "json object \<Rightarrow> json object option \<Rightarrow> bool option \<Rightarrow> 'e thrown + 'r response_scheme"

text \<open>
  \<open>apiFactory\<close>: starting from \<open>{}\<close>, one closure per item of \<open>actionList\<close> is stored under
  the item's name.
\<close>

definition apiFactory :: "('e, 'r) capi \<Rightarrow> ('e, 'r) api object" where
  "apiFactory apiRequest =
     foldl (\<lambda>apis item.
              apis(item \<mapsto>
                (\<lambda>data options isV3.
                   request apiRequest item data options isV3
                     (Some (indexOf needCheckAction item \<noteq> -1)))))
       Map.empty actionList"

record ('e, 'r) ApiGwRequest =
  apiRequest :: "('e, 'r) capi"
  apis :: "('e, 'r) api object"

text \<open>
  The constructor. \<open>Capi\<close>, the constructor of the RPC client, is external and a parameter;
  it receives \<open>{ ...options, ...{ ServiceType: 'apigateway' } }\<close>.
\<close>

definition new_ApiGwRequest ::
  "(json object \<Rightarrow> ('e, 'r) capi) \<Rightarrow> json object \<Rightarrow> ('e, 'r) ApiGwRequest" where
  "new_ApiGwRequest Capi options =
     (let client = Capi (spread options [''ServiceType'' \<mapsto> JStr ''apigateway''])
      in \<lparr> apiRequest = client, apis = apiFactory client \<rparr>)"

text \<open>Calling the entry \<open>name\<close> of the action table; \<open>None\<close> when there is no such entry.\<close>

definition call_api ::
  "('e, 'r) ApiGwRequest \<Rightarrow> string \<Rightarrow> json object \<Rightarrow> json object option \<Rightarrow> bool option
     \<Rightarrow> ('e thrown + 'r response_scheme) option" where
  "call_api gw name data options isV3 =
     map_option (\<lambda>f. f data options isV3) (apis gw name)"

section \<open>The joi schema library\<close>

text \<open>
  \<open>Validate\<close> builds its schemas with joi and runs them with \<open>Joi.validate(config, schema)\<close>,
  the entry point of joi up to version 14. The part of joi that the schemas use is embedded
  here the way joi is written: a schema is an object carrying its flags, its list of tests
  and its type's \<open>_base\<close> conversion; \<open>validate\<close> is \<open>Any.prototype._validate\<close>; each
  builder method returns an updated copy of the schema.

  \<open>Joi.validate\<close> is called without options, so joi's defaults \<open>abortEarly: true\<close> and
  \<open>convert: true\<close> are in force and are built into the functions below: the first error
  ends the validation, and a string is converted where the type allows it. The one setting
  that the schemas change is \<open>allowUnknown\<close>.

  The conversions of strings that JavaScript provides (\<open>JSON.parse\<close> for an object or an
  array given as a string, the reading of a number from a string) are parameters: every
  property below holds whatever they return.
\<close>

text \<open>
  \<open>JSON_parse s\<close> is the value of \<open>JSON.parse(s)\<close>, \<open>None\<close> when it throws. \<open>toNumber s\<close>
  is what the number type makes of the string \<open>s\<close>: no number, when the string is not
  written as a decimal number; a number whose own text differs from the normalised string,
  which is refused at once as unsafe; a number that is returned at once, unchecked (its
  own text is in exponent notation and the string is not); or a number that goes on to the
  range check like a number given as such.
\<close>

datatype number_conversion = NotANumber | UnsafeNumber rat | Unchecked rat | Number rat

record env =
  JSON_parse :: "string \<Rightarrow> json option"
  toNumber :: "string \<Rightarrow> number_conversion"

text \<open>
  The options of a validation. \<open>defaults\<close> is what \<open>Joi.validate\<close> starts from when the
  caller passes none.
\<close>

record joi_options =
  allowUnknown :: bool

definition defaults :: joi_options where
  "defaults = \<lparr> allowUnknown = False \<rparr>"

text \<open>
  The error types that the schema types used here can raise (\<open>any.required\<close> is
  \<open>Any_required\<close>, and so on), each with the values its message shows: the limit, the value
  and the pattern, the position, the name of the child.
\<close>

datatype etype =
    Any_required
  | Any_empty
  | Any_invalid
  | String_base
  | String_min nat
  | String_max nat
  | String_regex_base string string
  | Number_base
  | Number_unsafe
  | Number_integer
  | Number_min int
  | Number_max int
  | Boolean_base
  | Array_base
  | Array_max nat
  | Array_sparse
  | Array_includesOne nat
  | Object_base
  | Object_child string
  | Object_allowUnknown string

text \<open>
  An error object of joi: the key of the state it was created for (the label of its
  message), the \<open>error\<close> flag of the schema that created it, its type, and for
  \<open>object.child\<close> and \<open>array.includesOne\<close> the errors of the child (\<open>context.reason\<close>).
\<close>

datatype item = Item (ikey: string) (iflags_error: "string option") (itype: etype) (ireason: "item list")

text \<open>The result of \<open>_validate\<close>: the final value (\<open>None\<close> for \<open>undefined\<close>) and the errors.\<close>

record vresult =
  rvalue :: "json option"
  rerrors :: "item list"

text \<open>
  A schema: the values its type refuses outright (\<open>_invalids\<close>), the conversion and type
  check of its type (\<open>_base\<close>, which is given the \<open>error\<close> flag and the key for the errors it
  creates), its tests in the order they were added, the flags \<open>presence\<close>, \<open>default\<close> and
  \<open>error\<close> (the message of the \<open>Error\<close> given to \<open>.error(...)\<close>), and the options set
  with \<open>.options(...)\<close>.
\<close>

datatype presence = Optional | Required

record schema =
  invalids :: "json list"
  base :: "env \<Rightarrow> joi_options \<Rightarrow> string option \<Rightarrow> string \<Rightarrow> json \<Rightarrow> json \<times> item list"
  tests :: "(json \<Rightarrow> etype option) list"
  flags_presence :: presence
  flags_default :: "json option"
  flags_error :: "string option"
  settings :: "joi_options option"

text \<open>The tests run in order, and the first that fails ends the validation.\<close>

fun run_tests :: "(json \<Rightarrow> etype option) list \<Rightarrow> json \<Rightarrow> etype option" where
  "run_tests [] v = None"
| "run_tests (t # ts) v = (case t v of Some e \<Rightarrow> Some e | None \<Rightarrow> run_tests ts v)"

text \<open>
  \<open>finish()\<close>: the final value is the value, or the \<open>default\<close> flag when the value is
  \<open>undefined\<close>. The default is taken as it is; no test runs on it.
\<close>

definition finish :: "schema \<Rightarrow> json option \<Rightarrow> item list \<Rightarrow> vresult" where
  "finish s v errs =
     \<lparr> rvalue = (case v of Some x \<Rightarrow> Some x | None \<Rightarrow> flags_default s), rerrors = errs \<rparr>"

text \<open>\<open>createError\<close> stamps the error with the flags of the schema that raises it.\<close>

definition createError :: "schema \<Rightarrow> string \<Rightarrow> etype \<Rightarrow> item" where
  "createError s key t = Item key (flags_error s) t []"

text \<open>
  \<open>_validate(value, state, options)\<close>. The options set on the schema replace the ones
  handed down, and the result is what \<open>_base\<close> then receives and passes on to the children
  of an object or an array, so \<open>.options(...)\<close> reaches every schema below. An \<open>undefined\<close>
  value is settled by the \<open>presence\<close> flag alone. Any other value is checked against
  \<open>_invalids\<close>, converted and type-checked by \<open>_base\<close> (an error there ends the
  validation), checked against \<open>_invalids\<close> again when the conversion changed it, and then
  tested.
\<close>

definition validate :: "env \<Rightarrow> schema \<Rightarrow> joi_options \<Rightarrow> string \<Rightarrow> json option \<Rightarrow> vresult" where
  "validate e s opts0 key val =
     (let opts = (case settings s of None \<Rightarrow> opts0 | Some st \<Rightarrow> st) in
      case val of
        None \<Rightarrow>
          (case flags_presence s of
             Optional \<Rightarrow> finish s None []
           | Required \<Rightarrow> finish s None [createError s key Any_required])
      | Some v \<Rightarrow>
          if v \<in> set (invalids s)
          then finish s (Some v) [createError s key (if v = JStr [] then Any_empty else Any_invalid)]
          else
            (case base s e opts (flags_error s) key v of
               (v', errs) \<Rightarrow>
                 if errs \<noteq> [] then finish s (Some v') errs
                 else if v' \<noteq> v \<and> v' \<in> set (invalids s)
                 then finish s (Some v')
                        [createError s key (if v' = JStr [] then Any_empty else Any_invalid)]
                 else
                   (case run_tests (tests s) v' of
                      Some t \<Rightarrow> finish s (Some v') [createError s key t]
                    | None \<Rightarrow> finish s (Some v') [])))"

subsection \<open>any\<close>

text \<open>
  The builder methods. A chain \<open>Joi.string().min(2).required()\<close> is written
  \<open>chain Joi_string [string_min 2, required]\<close>: the methods apply from left to right.
  \<open>with_default\<close>, \<open>with_error\<close> and \<open>with_options\<close> are \<open>.default(v)\<close>, \<open>.error(new Error(m))\<close>
  and \<open>.options(o)\<close>; \<open>test\<close> is \<open>_test\<close>, which appends a test.
\<close>

definition chain :: "'a \<Rightarrow> ('a \<Rightarrow> 'a) list \<Rightarrow> 'a" where
  "chain x fs = foldl (\<lambda>s f. f s) x fs"

definition any :: schema where
  "any = \<lparr> invalids = [], base = (\<lambda>e opts ferr key v. (v, [])), tests = [],
           flags_presence = Optional, flags_default = None, flags_error = None,
           settings = None \<rparr>"

definition optional :: "schema \<Rightarrow> schema" where
  "optional s = s\<lparr> flags_presence := Optional \<rparr>"

definition required :: "schema \<Rightarrow> schema" where
  "required s = s\<lparr> flags_presence := Required \<rparr>"

definition with_default :: "json \<Rightarrow> schema \<Rightarrow> schema" where
  "with_default v s = s\<lparr> flags_default := Some v \<rparr>"

definition with_error :: "string \<Rightarrow> schema \<Rightarrow> schema" where
  "with_error msg s = s\<lparr> flags_error := Some msg \<rparr>"

definition with_options :: "joi_options \<Rightarrow> schema \<Rightarrow> schema" where
  "with_options st s = s\<lparr> settings := Some st \<rparr>"

definition test :: "(json \<Rightarrow> etype option) \<Rightarrow> schema \<Rightarrow> schema" where
  "test f s = s\<lparr> tests := tests s @ [f] \<rparr>"

subsection \<open>string\<close>

text \<open>
  \<open>Joi.string()\<close> refuses the empty string (\<open>any.empty\<close>) and, in \<open>_base\<close>, every value that
  is not a string; a string is never made from a value of another type. \<open>min\<close> and \<open>max\<close>
  bound the length, \<open>regex\<close> tests the pattern.
\<close>

definition Joi_string :: schema where
  "Joi_string =
     any\<lparr> invalids := [JStr []],
          base := (\<lambda>e opts ferr key v.
                     (v, case v of JStr _ \<Rightarrow> [] | _ \<Rightarrow> [Item key ferr String_base []])) \<rparr>"

definition string_min :: "nat \<Rightarrow> schema \<Rightarrow> schema" where
  "string_min limit =
     test (\<lambda>v. case v of JStr x \<Rightarrow> if length x \<ge> limit then None else Some (String_min limit)
                | _ \<Rightarrow> None)"

definition string_max :: "nat \<Rightarrow> schema \<Rightarrow> schema" where
  "string_max limit =
     test (\<lambda>v. case v of JStr x \<Rightarrow> if length x \<le> limit then None else Some (String_max limit)
                | _ \<Rightarrow> None)"

text \<open>
  The patterns of the source all have the form \<open>/^(a|b|c)$/\<close> with plain words for
  \<open>a\<close>, \<open>b\<close>, \<open>c\<close>: such a pattern matches exactly the listed words. \<open>regex_toString\<close> is
  the text of the pattern, which the error message shows.
\<close>

datatype regex = Anchored_alternatives "string list"

fun regex_test :: "regex \<Rightarrow> string \<Rightarrow> bool" where
  "regex_test (Anchored_alternatives alts) x = (x \<in> set alts)"

fun intercalate :: "string \<Rightarrow> string list \<Rightarrow> string" where
  "intercalate sep [] = []"
| "intercalate sep [x] = x"
| "intercalate sep (x # y # ys) = x @ sep @ intercalate sep (y # ys)"

fun regex_toString :: "regex \<Rightarrow> string" where
  "regex_toString (Anchored_alternatives alts) = ''/^('' @ intercalate ''|'' alts @ '')$/''"

definition regex :: "regex \<Rightarrow> schema \<Rightarrow> schema" where
  "regex pattern =
     test (\<lambda>v. case v of
                  JStr x \<Rightarrow> if regex_test pattern x then None
                            else Some (String_regex_base x (regex_toString pattern))
                | _ \<Rightarrow> None)"

subsection \<open>number\<close>

text \<open>
  \<open>Joi.number()\<close>: a string is read as a number, a number is kept, anything else (and a
  string that is no number) is \<open>number.base\<close>. A string whose number does not print back
  as the normalised string is \<open>number.unsafe\<close>, and so is a number outside the safe
  integer range, unless the conversion of a string returned it unchecked. \<open>integer\<close> asks
  that \<open>Math.trunc(value) - value === 0\<close>.
\<close>

definition MAX_SAFE_INTEGER :: rat where
  "MAX_SAFE_INTEGER = 9007199254740991"

definition safe_range :: "string option \<Rightarrow> string \<Rightarrow> rat \<Rightarrow> json \<times> item list" where
  "safe_range ferr key n =
     (JNum n,
      if n > MAX_SAFE_INTEGER \<or> n < - MAX_SAFE_INTEGER
      then [Item key ferr Number_unsafe []] else [])"

definition Joi_number :: schema where
  "Joi_number =
     any\<lparr> base := (\<lambda>e opts ferr key v.
            (case v of
               JStr x \<Rightarrow>
                 (case toNumber e x of
                    NotANumber \<Rightarrow> (v, [Item key ferr Number_base []])
                  | UnsafeNumber n \<Rightarrow> (JNum n, [Item key ferr Number_unsafe []])
                  | Unchecked n \<Rightarrow> (JNum n, [])
                  | Number n \<Rightarrow> safe_range ferr key n)
             | JNum n \<Rightarrow> safe_range ferr key n
             | _ \<Rightarrow> (v, [Item key ferr Number_base []]))) \<rparr>"

definition number_integer :: "schema \<Rightarrow> schema" where
  "number_integer =
     test (\<lambda>v. case v of JNum n \<Rightarrow> if of_int \<lfloor>n\<rfloor> - n = 0 then None else Some Number_integer
                | _ \<Rightarrow> None)"

definition number_min :: "int \<Rightarrow> schema \<Rightarrow> schema" where
  "number_min limit =
     test (\<lambda>v. case v of JNum n \<Rightarrow> if n \<ge> of_int limit then None else Some (Number_min limit)
                | _ \<Rightarrow> None)"

definition number_max :: "int \<Rightarrow> schema \<Rightarrow> schema" where
  "number_max limit =
     test (\<lambda>v. case v of JNum n \<Rightarrow> if n \<le> of_int limit then None else Some (Number_max limit)
                | _ \<Rightarrow> None)"

subsection \<open>boolean\<close>

text \<open>
  \<open>Joi.boolean()\<close>: the strings \<open>true\<close> and \<open>false\<close>, in any mix of upper and lower case,
  are converted; every other value that is not a boolean is \<open>boolean.base\<close>. Only the
  comparison with these two words uses \<open>toLowerCase\<close>, so the letters A to Z suffice.
\<close>

definition toLowerCase :: "string \<Rightarrow> string" where
  "toLowerCase x =
     map (\<lambda>c. case map_of (zip ''ABCDEFGHIJKLMNOPQRSTUVWXYZ'' ''abcdefghijklmnopqrstuvwxyz'') c of
                 Some l \<Rightarrow> l
               | None \<Rightarrow> c) x"

definition Joi_boolean :: schema where
  "Joi_boolean =
     any\<lparr> base := (\<lambda>e opts ferr key v.
            (let v' = (case v of
                         JStr x \<Rightarrow>
                           (let normalized = toLowerCase x in
                            if normalized = ''true'' then JBool True
                            else if normalized = ''false'' then JBool False else v)
                       | _ \<Rightarrow> v)
             in (v', case v' of JBool _ \<Rightarrow> [] | _ \<Rightarrow> [Item key ferr Boolean_base []]))) \<rparr>"

subsection \<open>Numbers in messages\<close>

text \<open>The decimal text of a limit or a position.\<close>

fun show_nat :: "nat \<Rightarrow> string" where
  "show_nat n =
     (if n < 10 then [''0123456789'' ! n]
      else show_nat (n div 10) @ [''0123456789'' ! (n mod 10)])"

declare show_nat.simps [simp del]

definition show_int :: "int \<Rightarrow> string" where
  "show_int i = (if i < 0 then ''-'' @ show_nat (nat (- i)) else show_nat (nat i))"

subsection \<open>array\<close>

text \<open>
  \<open>Joi.array()\<close>: a string that \<open>JSON.parse\<close> turns into an array is converted; any other
  value that is not an array is \<open>array.base\<close>. \<open>_checkItems\<close> validates the items in order
  against the schema given to \<open>.items(...)\<close> (the schemas here give one, or none), each under
  its index as key (\<open>wasArray\<close> is read after the conversion, so it holds whenever there are
  items to check), and stops at the first item that fails (\<open>array.includesOne\<close>, which
  carries the errors of the item). \<open>max\<close> is a test, so it runs after the items passed.
\<close>

fun checkItems ::
  "env \<Rightarrow> joi_options \<Rightarrow> string option \<Rightarrow> string \<Rightarrow> bool \<Rightarrow> schema option \<Rightarrow> nat \<Rightarrow> json list
     \<Rightarrow> json list \<times> item list" where
  "checkItems e opts ferr key wasArray inclusion i [] = ([], [])"
| "checkItems e opts ferr key wasArray inclusion i (x # xs) =
     (case inclusion of
        None \<Rightarrow>
          (case checkItems e opts ferr key wasArray inclusion (Suc i) xs of
             (ys, errs) \<Rightarrow> (x # ys, errs))
      | Some inc \<Rightarrow>
          (let res = validate e inc opts (if wasArray then show_nat i else key) (Some x) in
           if rerrors res \<noteq> []
           then (x # xs, [Item key ferr (Array_includesOne i) (rerrors res)])
           else
             (case rvalue res of
                None \<Rightarrow> (x # xs, [Item key ferr Array_sparse []])
              | Some y \<Rightarrow>
                  (case checkItems e opts ferr key wasArray inclusion (Suc i) xs of
                     (ys, errs) \<Rightarrow> (y # ys, errs)))))"

definition array_base ::
  "schema option \<Rightarrow> env \<Rightarrow> joi_options \<Rightarrow> string option \<Rightarrow> string \<Rightarrow> json \<Rightarrow> json \<times> item list" where
  "array_base inclusion e opts ferr key v =
     (let v' = (case v of
                  JStr x \<Rightarrow> (case JSON_parse e x of Some (JArr ys) \<Rightarrow> JArr ys | _ \<Rightarrow> v)
                | _ \<Rightarrow> v);
          wasArray = (case v' of JArr _ \<Rightarrow> True | _ \<Rightarrow> False)
      in case v' of
           JArr xs \<Rightarrow>
             (case checkItems e opts ferr key wasArray inclusion 0 xs of
                (ys, errs) \<Rightarrow> (JArr ys, errs))
         | _ \<Rightarrow> (v', [Item key ferr Array_base []]))"

definition Joi_array :: schema where
  "Joi_array = any\<lparr> base := array_base None \<rparr>"

definition array_items :: "schema \<Rightarrow> schema \<Rightarrow> schema" where
  "array_items inclusion s = s\<lparr> base := array_base (Some inclusion) \<rparr>"

definition array_max :: "nat \<Rightarrow> schema \<Rightarrow> schema" where
  "array_max limit =
     test (\<lambda>v. case v of JArr xs \<Rightarrow> if length xs \<le> limit then None else Some (Array_max limit)
                | _ \<Rightarrow> None)"

subsection \<open>object\<close>

text \<open>
  \<open>Joi.object().keys(...)\<close>: a string is given to \<open>JSON.parse\<close>; a value that is no object
  (an array and \<open>null\<close> are none) is \<open>object.base\<close>. The children are validated in the order
  of the keys of the schema, each on the property of its name in a copy of the object
  (\<open>target\<close>); the first child that fails ends the validation (\<open>object.child\<close>, which
  carries the errors of the child); the result of a child that passes is written back, which
  is how a default arrives in the object. The keys of the object that the schema does not
  name are refused (\<open>object.allowUnknown\<close>) unless the option \<open>allowUnknown\<close> is set. None of
  the schemas here uses \<open>.unknown()\<close>, the flag that would decide for one object alone.
\<close>

definition delete_prop :: "string \<Rightarrow> (string \<times> 'v) list \<Rightarrow> (string \<times> 'v) list" where
  "delete_prop k ob = filter (\<lambda>p. fst p \<noteq> k) ob"

fun validate_children ::
  "env \<Rightarrow> joi_options \<Rightarrow> string option \<Rightarrow> (string \<times> schema) list \<Rightarrow> (string \<times> json) list
     \<Rightarrow> (string \<times> json) list \<times> item list" where
  "validate_children e opts ferr [] target = (target, [])"
| "validate_children e opts ferr ((key, child) # rest) target =
     (let item = get_prop target key;
          result = validate e child opts key item
      in if rerrors result \<noteq> []
         then (target, [Item key ferr (Object_child key) (rerrors result)])
         else
           validate_children e opts ferr rest
             (case rvalue result of
                None \<Rightarrow> (if item \<noteq> None then delete_prop key target else target)
              | Some v \<Rightarrow> set_prop key v target))"

definition object_base ::
  "(string \<times> schema) list option \<Rightarrow> env \<Rightarrow> joi_options \<Rightarrow> string option \<Rightarrow> string \<Rightarrow> json
     \<Rightarrow> json \<times> item list" where
  "object_base children e opts ferr key v =
     (let parsed = (case v of
                      JStr x \<Rightarrow> (case JSON_parse e x of Some p \<Rightarrow> p | None \<Rightarrow> v)
                    | _ \<Rightarrow> v)
      in case parsed of
           JObj props \<Rightarrow>
             (case children of
                None \<Rightarrow> (JObj props, [])
              | Some ch \<Rightarrow>
                  (case validate_children e opts ferr ch props of
                     (target, errs) \<Rightarrow>
                       if errs \<noteq> [] then (JObj target, errs)
                       else
                         (let unprocessed = filter (\<lambda>k. k \<notin> set (map fst ch)) (map fst props)
                          in (JObj target,
                              if unprocessed \<noteq> [] \<and> \<not> allowUnknown opts
                              then map (\<lambda>k. Item k None (Object_allowUnknown k) []) unprocessed
                              else []))))
         | _ \<Rightarrow> (v, [Item key ferr Object_base []]))"

definition Joi_object :: schema where
  "Joi_object = any\<lparr> base := object_base None \<rparr>"

definition object_keys :: "(string \<times> schema) list \<Rightarrow> schema \<Rightarrow> schema" where
  "object_keys children s = s\<lparr> base := object_base (Some children) \<rparr>"

subsection \<open>Errors\<close>

text \<open>
  What \<open>Joi.validate\<close> reports: the \<open>Error\<close> that a schema was given with \<open>.error(...)\<close>,
  as it is, or a \<open>ValidationError\<close> whose message joi composes. \<open>processErrors\<close> looks for
  the first error, outermost first, that carries an \<open>error\<close> flag; \<open>toString\<close> is the message
  of an error, from joi's English templates; \<open>process\<close> puts the two together.
\<close>

datatype js_error = Error string | ValidationError string

fun error_message :: "js_error \<Rightarrow> string" where
  "error_message (Error m) = m"
| "error_message (ValidationError m) = m"

fun processErrors :: "item list \<Rightarrow> string option" where
  "processErrors [] = None"
| "processErrors (Item key ferr t reason # rest) =
     (case ferr of
        Some err \<Rightarrow> Some err
      | None \<Rightarrow>
          (case processErrors reason of
             Some err \<Rightarrow> Some err
           | None \<Rightarrow> processErrors rest))"

fun toString :: "item \<Rightarrow> string" where
  \<open>toString (Item key ferr t reason) =
     (let label = (if key = [] then ''value'' else key);
          k = ''"'' @ label @ ''" '';
          because = ''['' @ intercalate '', '' (map toString reason) @ '']''
      in case t of
           Any_required \<Rightarrow> k @ ''is required''
         | Any_empty \<Rightarrow> k @ ''is not allowed to be empty''
         | Any_invalid \<Rightarrow> k @ ''contains an invalid value''
         | String_base \<Rightarrow> k @ ''must be a string''
         | String_min limit \<Rightarrow>
             k @ ''length must be at least '' @ show_nat limit @ '' characters long''
         | String_max limit \<Rightarrow>
             k @ ''length must be less than or equal to '' @ show_nat limit @ '' characters long''
         | String_regex_base v pattern \<Rightarrow>
             k @ ''with value "'' @ v @ ''" fails to match the required pattern: '' @ pattern
         | Number_base \<Rightarrow> k @ ''must be a number''
         | Number_unsafe \<Rightarrow> k @ ''must be a safe number''
         | Number_integer \<Rightarrow> k @ ''must be an integer''
         | Number_min limit \<Rightarrow> k @ ''must be larger than or equal to '' @ show_int limit
         | Number_max limit \<Rightarrow> k @ ''must be less than or equal to '' @ show_int limit
         | Boolean_base \<Rightarrow> k @ ''must be a boolean''
         | Array_base \<Rightarrow> k @ ''must be an array''
         | Array_max limit \<Rightarrow>
             k @ ''must contain less than or equal to '' @ show_nat limit @ '' items''
         | Array_sparse \<Rightarrow> k @ ''must not be a sparse array''
         | Array_includesOne pos \<Rightarrow>
             k @ ''at position '' @ show_nat pos @ '' fails because '' @ because
         | Object_base \<Rightarrow> k @ ''must be an object''
         | Object_child child \<Rightarrow> ''child "'' @ child @ ''" fails because '' @ because
         | Object_allowUnknown child \<Rightarrow> ''"'' @ child @ ''" is not allowed'')\<close>

definition process :: "item list \<Rightarrow> js_error option" where
  "process errors =
     (if errors = [] then None
      else case processErrors errors of
             Some err \<Rightarrow> Some (Error err)
           | None \<Rightarrow> Some (ValidationError (intercalate ''. '' (map toString errors))))"

text \<open>\<open>Joi.validate(value, schema)\<close> returns \<open>{ error, value }\<close>.\<close>

record validation_result =
  error :: "js_error option"
  value_of :: "json option"

definition Joi_validate :: "env \<Rightarrow> json \<Rightarrow> schema \<Rightarrow> validation_result" where
  "Joi_validate e v s =
     (let result = validate e s defaults [] (Some v)
      in \<lparr> error = process (rerrors result), value_of = rvalue result \<rparr>)"

section \<open>The configuration validator (function Validate)\<close>

text \<open>
  The three schemas of \<open>Validate\<close>, written as in the source. An object literal among the
  keys (\<open>auth\<close>) is the object schema with these keys.
\<close>

definition usagePlanScheme :: "(string \<times> schema) list" where
  \<open>usagePlanScheme =
     [(''usagePlanId'', chain Joi_string [optional]),
      (''usagePlanDesc'', chain Joi_string [string_max 200, optional]),
      (''maxRequestNum'',
         chain Joi_number
           [number_integer, number_min 1, number_max 99999999, optional, with_default (JNum (- 1))]),
      (''maxRequestNumPreSec'',
         chain Joi_number
           [number_integer, number_min 1, number_max 2000, optional, with_default (JNum 1000)]),
      (''usagePlanName'',
         chain Joi_string
           [string_min 2, string_max 50, required,
            with_error ''"usagePlan.usagePlanName" is required''])]\<close>

definition endpointsScheme :: schema where
  \<open>endpointsScheme =
     chain Joi_array
       [array_max 100,
        array_items
          (chain Joi_object
             [object_keys
                [(''apiId'', chain Joi_string [optional]),
                 (''description'', chain Joi_string [string_max 200, optional]),
                 (''enableCORS'', chain Joi_boolean [optional, with_default (JBool False)]),
                 (''path'', chain Joi_string [required]),
                 (''method'',
                    chain Joi_string
                      [regex (Anchored_alternatives
                                [''GET'', ''POST'', ''PUT'', ''DELETE'', ''HEAD'', ''ANY'']),
                       required]),
                 (''function'',
                    chain Joi_object
                      [object_keys
                         [(''isIntegratedResponse'',
                             chain Joi_boolean [optional, with_default (JBool False)]),
                          (''functionQualifier'',
                             chain Joi_string [optional, with_default (JStr ''$LATEST'')]),
                          (''functionName'',
                             chain Joi_string
                               [required,
                                with_error ''"endpoints.function.functionName" is required''])],
                       required]),
                 (''usagePlan'', chain Joi_object [object_keys usagePlanScheme]),
                 (''auth'',
                    chain Joi_object
                      [object_keys
                         [(''serviceTimeout'',
                             chain Joi_number [number_integer, optional, with_default (JNum 15)]),
                          (''secretName'', chain Joi_string [required]),
                          (''secretIds'', chain Joi_array [array_max 100])]])]]),
        required]\<close>

definition globalScheme :: schema where
  \<open>globalScheme =
     chain Joi_object
       [object_keys
          [(''region'', chain Joi_string [optional, with_default (JStr ''ap-guangzhou'')]),
           (''serviceId'', chain Joi_string [optional]),
           (''protocol'',
              chain Joi_string
                [regex (Anchored_alternatives [''http'', ''https'', ''http&https'']),
                 optional, with_default (JStr ''http'')]),
           (''serviceName'',
              chain Joi_string
                [string_min 2, string_max 50, required, with_error ''"serviceName" is required'']),
           (''description'', chain Joi_string [string_max 200, optional]),
           (''environment'',
              chain Joi_string
                [regex (Anchored_alternatives [''prepub'', ''test'', ''release'']),
                 optional, with_default (JStr ''release'')]),
           (''endpoints'', endpointsScheme)],
        with_options \<lparr> allowUnknown = True \<rparr>]\<close>

text \<open>
  \<open>Validate(config = {})\<close>: an omitted argument is \<open>None\<close>. The error is thrown (\<open>Inl\<close>), or
  the value of the result is returned (\<open>Inr\<close>).
\<close>

definition Validate :: "env \<Rightarrow> json option \<Rightarrow> js_error + json option" where
  "Validate e config =
     (let config' = (case config of None \<Rightarrow> JObj [] | Some c \<Rightarrow> c);
          gloalResult = Joi_validate e config' globalScheme
      in case error gloalResult of
           Some err \<Rightarrow> Inl err
         | None \<Rightarrow> Inr (value_of gloalResult))"

subsection \<open>Names for the parts of the schemas\<close>

text \<open>
  The nested schemas are written inline in the source. The properties below speak about
  them one level at a time, so each level gets a name here; \<open>endpointsScheme\<close> and
  \<open>globalScheme\<close> are shown further down to be built from exactly these parts.
\<close>

definition functionKeys :: "(string \<times> schema) list" where
  \<open>functionKeys =
     [(''isIntegratedResponse'', chain Joi_boolean [optional, with_default (JBool False)]),
      (''functionQualifier'', chain Joi_string [optional, with_default (JStr ''$LATEST'')]),
      (''functionName'',
         chain Joi_string
           [required, with_error ''"endpoints.function.functionName" is required''])]\<close>

definition authKeys :: "(string \<times> schema) list" where
  "authKeys =
     [(''serviceTimeout'', chain Joi_number [number_integer, optional, with_default (JNum 15)]),
      (''secretName'', chain Joi_string [required]),
      (''secretIds'', chain Joi_array [array_max 100])]"

definition endpointKeys :: "(string \<times> schema) list" where
  "endpointKeys =
     [(''apiId'', chain Joi_string [optional]),
      (''description'', chain Joi_string [string_max 200, optional]),
      (''enableCORS'', chain Joi_boolean [optional, with_default (JBool False)]),
      (''path'', chain Joi_string [required]),
      (''method'',
         chain Joi_string
           [regex (Anchored_alternatives [''GET'', ''POST'', ''PUT'', ''DELETE'', ''HEAD'', ''ANY'']),
            required]),
      (''function'', chain Joi_object [object_keys functionKeys, required]),
      (''usagePlan'', chain Joi_object [object_keys usagePlanScheme]),
      (''auth'', chain Joi_object [object_keys authKeys])]"

definition endpointScheme :: schema where
  "endpointScheme = chain Joi_object [object_keys endpointKeys]"

definition globalKeys :: "(string \<times> schema) list" where
  \<open>globalKeys =
     [(''region'', chain Joi_string [optional, with_default (JStr ''ap-guangzhou'')]),
      (''serviceId'', chain Joi_string [optional]),
      (''protocol'',
         chain Joi_string
           [regex (Anchored_alternatives [''http'', ''https'', ''http&https'']),
            optional, with_default (JStr ''http'')]),
      (''serviceName'',
         chain Joi_string
           [string_min 2, string_max 50, required, with_error ''"serviceName" is required'']),
      (''description'', chain Joi_string [string_max 200, optional]),
      (''environment'',
         chain Joi_string
           [regex (Anchored_alternatives [''prepub'', ''test'', ''release'']),
            optional, with_default (JStr ''release'')]),
      (''endpoints'', endpointsScheme)]\<close>

subsection \<open>Paths into a configuration\<close>

text \<open>
  \<open>get_path cfg [Key ''endpoints'', Index i, Key ''path'']\<close> is \<open>cfg.endpoints[i].path\<close>, and
  \<open>None\<close> when a step of the path does not exist. \<open>set_path p v cfg\<close> is the configuration
  after \<open>cfg.p = v\<close>; it leaves \<open>cfg\<close> unchanged when the object that should hold the last
  step does not exist.
\<close>

datatype sel = Key string | Index nat

fun get_path :: "json \<Rightarrow> sel list \<Rightarrow> json option" where
  "get_path v [] = Some v"
| "get_path (JObj props) (Key k # p) = (case get_prop props k of None \<Rightarrow> None | Some x \<Rightarrow> get_path x p)"
| "get_path (JArr xs) (Index i # p) = (if i < length xs then get_path (xs ! i) p else None)"
| "get_path v (s # p) = None"

fun set_path :: "sel list \<Rightarrow> json \<Rightarrow> json \<Rightarrow> json" where
  "set_path [Key k] v (JObj props) = JObj (set_prop k v props)"
| "set_path (Key k # p) v (JObj props) =
     (case get_prop props k of
        None \<Rightarrow> JObj props
      | Some x \<Rightarrow> JObj (set_prop k (set_path p v x) props))"
| "set_path (Index i # p) v (JArr xs) =
     (if i < length xs then JArr (xs[i := set_path p v (xs ! i)]) else JArr xs)"
| "set_path p v x = x"

text \<open>
  A field is omitted at a path when the value at the path is an object without a property of
  that name.
\<close>

definition omitted :: "json \<Rightarrow> sel list \<Rightarrow> string \<Rightarrow> bool" where
  "omitted cfg p k =
     (case get_path cfg p of Some (JObj props) \<Rightarrow> get_prop props k = None | _ \<Rightarrow> False)"

subsection \<open>The fields validated before a field\<close>

text \<open>
  An object schema validates its keys in the order of the schema, an array its items in
  order, and the first failure ends the validation. So whether the validation arrives at a
  field depends on the fields before it and on nothing else. \<open>passes\<close> says that a schema
  raises no error on a value; every schema below \<open>globalScheme\<close> runs with the options of
  \<open>globalScheme\<close>. \<open>earlier_pass e keys k ob\<close> says that the keys of \<open>keys\<close> that come before
  \<open>k\<close> pass on the object \<open>ob\<close>, and \<open>items_pass\<close> that the items of a list pass, each under
  its position.
\<close>

definition passes :: "env \<Rightarrow> schema \<Rightarrow> string \<Rightarrow> json option \<Rightarrow> bool" where
  "passes e s key v = (rerrors (validate e s \<lparr> allowUnknown = True \<rparr> key v) = [])"

definition earlier_pass :: "env \<Rightarrow> (string \<times> schema) list \<Rightarrow> string \<Rightarrow> (string \<times> json) list \<Rightarrow> bool" where
  "earlier_pass e keys k ob =
     list_all (\<lambda>(k', c). passes e c k' (get_prop ob k')) (takeWhile (\<lambda>kc. fst kc \<noteq> k) keys)"

definition items_pass :: "env \<Rightarrow> schema \<Rightarrow> json list \<Rightarrow> bool" where
  "items_pass e s xs = list_all (\<lambda>(j, x). passes e s (show_nat j) (Some x)) (enumerate 0 xs)"

text \<open>
  \<open>top_field_reached e cfg k\<close>: the validation of the object \<open>cfg\<close> arrives at its field
  \<open>k\<close>, the top-level fields before \<open>k\<close> pass.

  \<open>field_reached e cfg i s keys k\<close>: the validation of \<open>cfg\<close> arrives at the field \<open>k\<close> of
  the object \<open>cfg.endpoints[i].s\<close>, whose schema has the keys \<open>keys\<close>. The top-level fields
  other than \<open>endpoints\<close> (they all come before it) pass, the endpoints before the one at
  \<open>i\<close> pass, the fields of that endpoint before \<open>s\<close> pass, \<open>s\<close> holds an object, and the
  fields of this object before \<open>k\<close> pass.
\<close>

definition top_field_reached :: "env \<Rightarrow> json \<Rightarrow> string \<Rightarrow> bool" where
  "top_field_reached e cfg k =
     (case cfg of JObj props \<Rightarrow> earlier_pass e globalKeys k props | _ \<Rightarrow> False)"

definition field_reached ::
  "env \<Rightarrow> json \<Rightarrow> nat \<Rightarrow> string \<Rightarrow> (string \<times> schema) list \<Rightarrow> string \<Rightarrow> bool" where
  "field_reached e cfg i s keys k =
     (case cfg of
        JObj props \<Rightarrow>
          earlier_pass e globalKeys ''endpoints'' props \<and>
          (case get_prop props ''endpoints'' of
             Some (JArr eps) \<Rightarrow>
               i < length eps \<and>
               items_pass e endpointScheme (take i eps) \<and>
               (case drop i eps of
                  JObj x # _ \<Rightarrow>
                    earlier_pass e endpointKeys s x \<and>
                    (case get_prop x s of
                       Some (JObj f) \<Rightarrow> earlier_pass e keys k f
                     | _ \<Rightarrow> False)
                | _ \<Rightarrow> False)
           | _ \<Rightarrow> False)
      | _ \<Rightarrow> False)"

section \<open>The data model of the specification\<close>

text \<open>
  The shape that section 3 of the specification gives to a configuration, in its words:
  the type and the bounds of each field, and which fields are required. The shape has one
  parameter, \<open>least\<close>, the least number of characters of a field that is a string and has
  no lower bound of its own in section 3; the words of section 3 are the shape with
  \<open>least = 0\<close>. An integer is a number without a fractional part in the range that numbers
  hold exactly. Nothing is asked of the keys that section 3 does not name.
\<close>

definition optional_field :: "(string \<times> json) list \<Rightarrow> string \<Rightarrow> (json \<Rightarrow> bool) \<Rightarrow> bool" where
  "optional_field ob k P = (case get_prop ob k of None \<Rightarrow> True | Some v \<Rightarrow> P v)"

definition required_field :: "(string \<times> json) list \<Rightarrow> string \<Rightarrow> (json \<Rightarrow> bool) \<Rightarrow> bool" where
  "required_field ob k P = (case get_prop ob k of None \<Rightarrow> False | Some v \<Rightarrow> P v)"

definition is_string :: "nat \<Rightarrow> json \<Rightarrow> bool" where
  "is_string least v = (case v of JStr x \<Rightarrow> least \<le> length x | _ \<Rightarrow> False)"

definition is_string_within :: "nat \<Rightarrow> nat \<Rightarrow> json \<Rightarrow> bool" where
  "is_string_within lo hi v = (case v of JStr x \<Rightarrow> lo \<le> length x \<and> length x \<le> hi | _ \<Rightarrow> False)"

definition is_one_of :: "string list \<Rightarrow> json \<Rightarrow> bool" where
  "is_one_of words v = (case v of JStr x \<Rightarrow> x \<in> set words | _ \<Rightarrow> False)"

definition is_bool :: "json \<Rightarrow> bool" where
  "is_bool v = (case v of JBool _ \<Rightarrow> True | _ \<Rightarrow> False)"

definition is_integer :: "json \<Rightarrow> bool" where
  "is_integer v =
     (case v of
        JNum n \<Rightarrow> of_int \<lfloor>n\<rfloor> = n \<and> - MAX_SAFE_INTEGER \<le> n \<and> n \<le> MAX_SAFE_INTEGER
      | _ \<Rightarrow> False)"

definition is_integer_within :: "int \<Rightarrow> int \<Rightarrow> json \<Rightarrow> bool" where
  "is_integer_within lo hi v =
     (case v of JNum n \<Rightarrow> of_int \<lfloor>n\<rfloor> = n \<and> of_int lo \<le> n \<and> n \<le> of_int hi | _ \<Rightarrow> False)"

definition is_sequence :: "nat \<Rightarrow> (json \<Rightarrow> bool) \<Rightarrow> json \<Rightarrow> bool" where
  "is_sequence limit P v = (case v of JArr xs \<Rightarrow> length xs \<le> limit \<and> list_all P xs | _ \<Rightarrow> False)"

definition UsagePlan_shape :: "nat \<Rightarrow> json \<Rightarrow> bool" where
  "UsagePlan_shape least v =
     (case v of
        JObj ob \<Rightarrow>
          optional_field ob ''usagePlanId'' (is_string least) \<and>
          optional_field ob ''usagePlanDesc'' (is_string_within least 200) \<and>
          optional_field ob ''maxRequestNum'' (is_integer_within 1 99999999) \<and>
          optional_field ob ''maxRequestNumPreSec'' (is_integer_within 1 2000) \<and>
          required_field ob ''usagePlanName'' (is_string_within 2 50)
      | _ \<Rightarrow> False)"

definition FunctionBinding_shape :: "nat \<Rightarrow> json \<Rightarrow> bool" where
  "FunctionBinding_shape least v =
     (case v of
        JObj ob \<Rightarrow>
          optional_field ob ''isIntegratedResponse'' is_bool \<and>
          optional_field ob ''functionQualifier'' (is_string least) \<and>
          required_field ob ''functionName'' (is_string least)
      | _ \<Rightarrow> False)"

definition AuthConfig_shape :: "nat \<Rightarrow> json \<Rightarrow> bool" where
  "AuthConfig_shape least v =
     (case v of
        JObj ob \<Rightarrow>
          optional_field ob ''serviceTimeout'' is_integer \<and>
          required_field ob ''secretName'' (is_string least) \<and>
          optional_field ob ''secretIds'' (is_sequence 100 (is_string 0))
      | _ \<Rightarrow> False)"

definition Endpoint_shape :: "nat \<Rightarrow> json \<Rightarrow> bool" where
  "Endpoint_shape least v =
     (case v of
        JObj ob \<Rightarrow>
          optional_field ob ''apiId'' (is_string least) \<and>
          optional_field ob ''description'' (is_string_within least 200) \<and>
          optional_field ob ''enableCORS'' is_bool \<and>
          required_field ob ''path'' (is_string least) \<and>
          required_field ob ''method''
            (is_one_of [''GET'', ''POST'', ''PUT'', ''DELETE'', ''HEAD'', ''ANY'']) \<and>
          required_field ob ''function'' (FunctionBinding_shape least) \<and>
          optional_field ob ''usagePlan'' (UsagePlan_shape least) \<and>
          optional_field ob ''auth'' (AuthConfig_shape least)
      | _ \<Rightarrow> False)"

definition ServiceConfig_shape :: "nat \<Rightarrow> json \<Rightarrow> bool" where
  "ServiceConfig_shape least v =
     (case v of
        JObj ob \<Rightarrow>
          optional_field ob ''region'' (is_string least) \<and>
          optional_field ob ''serviceId'' (is_string least) \<and>
          optional_field ob ''protocol'' (is_one_of [''http'', ''https'', ''http&https'']) \<and>
          required_field ob ''serviceName'' (is_string_within 2 50) \<and>
          optional_field ob ''description'' (is_string_within least 200) \<and>
          optional_field ob ''environment'' (is_one_of [''prepub'', ''test'', ''release'']) \<and>
          required_field ob ''endpoints'' (is_sequence 100 (Endpoint_shape least))
      | _ \<Rightarrow> False)"

section \<open>Properties of the dispatcher\<close>

lemma str_match_sublist: "str_match s p \<longleftrightarrow> sublist p s"
  by (induction s) (auto simp: sublist_Cons_right)

lemma indexOf_mem: "indexOf xs x \<noteq> -1 \<longleftrightarrow> x \<in> set xs"
proof (induction xs)
  case Nil
  show ?case by simp
next
  case (Cons y ys)
  have "indexOf zs x \<ge> -1" for zs
    by (induction zs) (auto simp: Let_def)
  from this[of ys] Cons show ?case
    by (auto simp: Let_def)
qed

lemma forEach_assign:
  "foldl (\<lambda>apis item. apis(item \<mapsto> f item)) m xs name =
     (if name \<in> set xs then Some (f name) else m name)"
  by (induction xs arbitrary: m) auto

lemma apiFactory_apply:
  "apiFactory client name =
     (if name \<in> set actionList
      then Some (\<lambda>data options isV3.
                   request client name data options isV3 (Some (name \<in> set needCheckAction)))
      else None)"
  unfolding apiFactory_def by (simp add: forEach_assign indexOf_mem)

lemma needCheckAction_set:
  "name \<in> set needCheckAction \<longleftrightarrow>
     name \<in> {''UnBindSecretIds'', ''UnBindEnvironment'', ''DeleteUsagePlan'', ''DeleteApiKey''}"
  by (simp add: needCheckAction_def)

lemma apis_new_ApiGwRequest:
  "apis (new_ApiGwRequest Capi copts) = apiFactory (apiRequest (new_ApiGwRequest Capi copts))"
  by (simp add: new_ApiGwRequest_def Let_def)

lemma call_api_request:
  assumes "name \<in> set actionList"
  shows "call_api (new_ApiGwRequest Capi copts) name data options isV3 =
           Some (request (apiRequest (new_ApiGwRequest Capi copts)) name data options isV3
                   (Some (name \<in> set needCheckAction)))"
  using assms unfolding call_api_def apis_new_ApiGwRequest apiFactory_apply by simp

lemma apiRequest_new_ApiGwRequest:
  "apiRequest (new_ApiGwRequest (\<lambda>_. c) copts) = c"
  by (simp add: new_ApiGwRequest_def Let_def)

lemma request_recorded:
  "request (\<lambda>p ob v. Inr \<lparr>code = 0, message = None, \<dots> = (p, ob, v)\<rparr>)
     name data options isV3 needCheck =
   Inr \<lparr>code = 0, message = None,
        \<dots> = (spread [''Action'' \<mapsto> JStr name] data,
               spread (case options of None \<Rightarrow> Map.empty | Some ob \<Rightarrow> ob)
                 [''path'' \<mapsto> JStr ''/v2/index.php''],
               case isV3 of None \<Rightarrow> False | Some b \<Rightarrow> b)\<rparr>"
  unfolding request_def by (simp add: Let_def)

lemma call_api_recorded:
  assumes "name \<in> set actionList"
  shows "call_api
           (new_ApiGwRequest
              (\<lambda>_ p ob v. Inr \<lparr>code = 0, message = None, \<dots> = (p, ob, v)\<rparr>
                 :: 'e + (json object \<times> json object \<times> bool) response_scheme)
              copts)
           name data options isV3
         = Some (Inr \<lparr>code = 0, message = None,
                     \<dots> = (spread [''Action'' \<mapsto> JStr name] data,
                            spread (case options of None \<Rightarrow> Map.empty | Some ob \<Rightarrow> ob)
                              [''path'' \<mapsto> JStr ''/v2/index.php''],
                            case isV3 of None \<Rightarrow> False | Some b \<Rightarrow> b)\<rparr>)"
proof -
  have "apiRequest
          (new_ApiGwRequest
             (\<lambda>_ p ob v. Inr \<lparr>code = 0, message = None, \<dots> = (p, ob, v)\<rparr>
                :: 'e + (json object \<times> json object \<times> bool) response_scheme)
             copts)
        = (\<lambda>p ob v. Inr \<lparr>code = 0, message = None, \<dots> = (p, ob, v)\<rparr>)"
    by (simp add: new_ApiGwRequest_def Let_def)
  thus ?thesis
    unfolding call_api_request[OF assms] by (simp only: request_recorded)
qed

lemma call_api_decided:
  assumes "name \<in> set actionList"
    and "c (spread [''Action'' \<mapsto> JStr name] data)
           (spread (case options of None \<Rightarrow> Map.empty | Some ob \<Rightarrow> ob)
              [''path'' \<mapsto> JStr ''/v2/index.php''])
           (case isV3 of None \<Rightarrow> False | Some b \<Rightarrow> b)
         = c' (spread [''Action'' \<mapsto> JStr name] data)
             (spread (case options of None \<Rightarrow> Map.empty | Some ob \<Rightarrow> ob)
                [''path'' \<mapsto> JStr ''/v2/index.php''])
             (case isV3 of None \<Rightarrow> False | Some b \<Rightarrow> b)"
  shows "call_api (new_ApiGwRequest (\<lambda>_. c) copts) name data options isV3
         = call_api (new_ApiGwRequest (\<lambda>_. c') copts) name data options isV3"
  using assms(2)
  unfolding call_api_request[OF assms(1)] apiRequest_new_ApiGwRequest request_def
  by (simp add: Let_def)

lemma spread_apply:
  "spread a b k = (case b k of None \<Rightarrow> a k | Some v \<Rightarrow> Some v)"
  by (simp add: spread_def map_add_def)

text \<open>
  C1, as the source has it. Take an action of the table and a call of it for which the RPC
  client answers with a response \<open>res\<close>. When the code is 0 the call resolves with \<open>res\<close>
  itself. When the code is not 0 and the action is none of UnBindSecretIds,
  UnBindEnvironment, DeleteUsagePlan, DeleteApiKey, the call is rejected with
  \<open>HttpError (code res) (message res)\<close>. When the code is not 0 and the action is one of
  the four, the outcome depends on the message: a string that contains "does not exist" or
  "not found" makes the call resolve with \<open>res\<close> itself, any other string makes it reject
  with \<open>HttpError (code res) (message res)\<close>, and a message that is no string (absent,
  \<open>null\<close>, a number, a boolean, an array, an object) makes it reject with a \<open>TypeError\<close>.
\<close>

theorem request_outcome:
  assumes "name \<in> set actionList"
    and "gw = new_ApiGwRequest Capi copts"
    and "apiRequest gw
           (spread [''Action'' \<mapsto> JStr name] data)
           (spread (case options of None \<Rightarrow> Map.empty | Some ob \<Rightarrow> ob)
              [''path'' \<mapsto> JStr ''/v2/index.php''])
           (case isV3 of None \<Rightarrow> False | Some b \<Rightarrow> b) = Inr res"
  shows "call_api gw name data options isV3 =
           Some (if code res = 0 then Inr res
                 else if name \<notin> {''UnBindSecretIds'', ''UnBindEnvironment'',
                                  ''DeleteUsagePlan'', ''DeleteApiKey''}
                 then Inl (HttpError (code res) (message res))
                 else (case message res of
                         Some (JStr m) \<Rightarrow>
                           if sublist ''does not exist'' m \<or> sublist ''not found'' m
                           then Inr res
                           else Inl (HttpError (code res) (message res))
                       | _ \<Rightarrow> Inl TypeError))"
proof -
  have "call_api gw name data options isV3 =
          Some (request (apiRequest gw) name data options isV3 (Some (name \<in> set needCheckAction)))"
    unfolding assms(2) by (rule call_api_request[OF assms(1)])
  thus ?thesis
    using assms(3)
    by (simp add: request_def CheckExistsFromError_def str_match_sublist needCheckAction_set
             split: option.splits json.splits)
qed

theorem request_outcome_witness:
  "call_api
     (new_ApiGwRequest
        (\<lambda>_ _ _ _. Inr \<lparr>code = 1, message = Some (JStr ''resource not found'')\<rparr> :: unit + response)
        Map.empty)
     ''DeleteApiKey'' Map.empty None None
   = Some (Inr \<lparr>code = 1, message = Some (JStr ''resource not found'')\<rparr>)
   \<and> call_api
     (new_ApiGwRequest
        (\<lambda>_ _ _ _. Inr \<lparr>code = 1, message = Some (JStr ''resource not found'')\<rparr> :: unit + response)
        Map.empty)
     ''CreateApi'' Map.empty None None
   = Some (Inl (HttpError 1 (Some (JStr ''resource not found''))))"
proof -
  let ?res = "\<lparr>code = 1, message = Some (JStr ''resource not found'')\<rparr>"
  let ?Capi = "\<lambda>_ _ _ _. Inr ?res :: unit + response"
  let ?gw = "new_ApiGwRequest ?Capi Map.empty"
  have r: "apiRequest ?gw
             (spread [''Action'' \<mapsto> JStr name] Map.empty)
             (spread (case None of None \<Rightarrow> Map.empty | Some ob \<Rightarrow> ob)
                [''path'' \<mapsto> JStr ''/v2/index.php''])
             (case None of None \<Rightarrow> False | Some b \<Rightarrow> b) = Inr ?res" for name
    by (simp add: new_ApiGwRequest_def Let_def)
  have f: "sublist ''not found'' ''resource not found''"
    unfolding str_match_sublist[symmetric] by simp
  have a1: "''DeleteApiKey'' \<in> set actionList" and a2: "''CreateApi'' \<in> set actionList"
    by (simp_all add: actionList_def)
  show ?thesis
    using request_outcome[OF a1 refl r] request_outcome[OF a2 refl r] f
    by simp
qed

text \<open>
  C1, as the claim states it, fails for a response with a numeric code and no string under
  \<open>message\<close>: on DeleteApiKey the reply \<open>{ code: 1 }\<close> neither raises
  \<open>HttpError(res.code, res.message)\<close> nor resolves with the response; the call is rejected
  with the \<open>TypeError\<close> of \<open>err.message.match\<close>.
\<close>

theorem request_message_not_a_string:
  "call_api
     (new_ApiGwRequest (\<lambda>_ _ _ _. Inr \<lparr>code = 1, message = None\<rparr> :: unit + response) Map.empty)
     ''DeleteApiKey'' Map.empty None None
   = Some (Inl TypeError)
   \<and> call_api
     (new_ApiGwRequest (\<lambda>_ _ _ _. Inr \<lparr>code = 1, message = Some JNull\<rparr> :: unit + response) Map.empty)
     ''DeleteApiKey'' Map.empty None None
   = Some (Inl TypeError)"
proof -
  have a: "''DeleteApiKey'' \<in> set actionList"
    by (simp add: actionList_def)
  show ?thesis
    unfolding call_api_request[OF a]
    by (simp add: needCheckAction_def request_def CheckExistsFromError_def
          new_ApiGwRequest_def Let_def)
qed




text \<open>
  C4. Call an action of the table on a dispatcher whose RPC client answers every request
  with code 0 and a record \<open>(p, ob, v)\<close> of the three arguments it was called with. The
  call resolves with that answer, and the options \<open>ob\<close> it records have \<open>path\<close> equal to
  \<open>/v2/index.php\<close>, whatever the caller's options say about \<open>path\<close>, and every other
  property is the caller's (none when the caller gave no options). For every RPC client
  the outcome of the call is decided by the client's answer to that one request.
\<close>

theorem request_options_path:
  assumes "name \<in> set actionList"
  shows "\<exists>p ob v.
           call_api
             (new_ApiGwRequest
                (\<lambda>_ p ob v. Inr \<lparr>code = 0, message = None, \<dots> = (p, ob, v)\<rparr>
                   :: unit + (json object \<times> json object \<times> bool) response_scheme)
                copts)
             name data options isV3
           = Some (Inr \<lparr>code = 0, message = None, \<dots> = (p, ob, v)\<rparr>)
           \<and> ob ''path'' = Some (JStr ''/v2/index.php'')
           \<and> (\<forall>k. k \<noteq> ''path'' \<longrightarrow>
                  ob k = (case options of None \<Rightarrow> None | Some opts \<Rightarrow> opts k))
           \<and> (\<forall>(c :: ('e, 'r) capi) c'.
                 c p ob v = c' p ob v \<longrightarrow>
                 call_api (new_ApiGwRequest (\<lambda>_. c) copts) name data options isV3
                 = call_api (new_ApiGwRequest (\<lambda>_. c') copts) name data options isV3)"
proof -
  let ?p = "spread [''Action'' \<mapsto> JStr name] data"
  let ?ob = "spread (case options of None \<Rightarrow> Map.empty | Some ob \<Rightarrow> ob)
               [''path'' \<mapsto> JStr ''/v2/index.php'']"
  let ?v = "case isV3 of None \<Rightarrow> False | Some b \<Rightarrow> b"
  have 1: "call_api
             (new_ApiGwRequest
                (\<lambda>_ p ob v. Inr \<lparr>code = 0, message = None, \<dots> = (p, ob, v)\<rparr>
                   :: unit + (json object \<times> json object \<times> bool) response_scheme)
                copts)
             name data options isV3
           = Some (Inr \<lparr>code = 0, message = None, \<dots> = (?p, ?ob, ?v)\<rparr>)"
    by (rule call_api_recorded[OF assms])
  have 2: "?ob ''path'' = Some (JStr ''/v2/index.php'')"
    by (simp add: spread_apply)
  have 3: "\<forall>k. k \<noteq> ''path'' \<longrightarrow>
             ?ob k = (case options of None \<Rightarrow> None | Some opts \<Rightarrow> opts k)"
    by (simp add: spread_apply split: option.splits)
  have 4: "\<forall>(c :: ('e, 'r) capi) c'.
             c ?p ?ob ?v = c' ?p ?ob ?v \<longrightarrow>
             call_api (new_ApiGwRequest (\<lambda>_. c) copts) name data options isV3
             = call_api (new_ApiGwRequest (\<lambda>_. c') copts) name data options isV3"
    using call_api_decided[OF assms, of _ data options isV3 _ copts] by blast
  show ?thesis
    apply (rule exI[of _ ?p], rule exI[of _ ?ob], rule exI[of _ ?v])
    apply (intro conjI)
       apply (rule 1)
      apply (rule 2)
     apply (rule 3)
    apply (rule 4)
    done
qed

theorem request_options_path_witness:
  "\<exists>p ob v.
     call_api
       (new_ApiGwRequest
          (\<lambda>_ p ob v. Inr \<lparr>code = 0, message = None, \<dots> = (p, ob, v)\<rparr>
             :: unit + (json object \<times> json object \<times> bool) response_scheme)
          Map.empty)
       ''DescribeService''
       [''serviceId'' \<mapsto> JStr ''service-1'']
       (Some [''path'' \<mapsto> JStr ''/v3'', ''timeout'' \<mapsto> JNum 5])
       (Some True)
     = Some (Inr \<lparr>code = 0, message = None, \<dots> = (p, ob, v)\<rparr>)
     \<and> ob ''path'' = Some (JStr ''/v2/index.php'')
     \<and> ob ''timeout'' = Some (JNum 5)
     \<and> ob ''host'' = None"
proof -
  have a: "''DescribeService'' \<in> set actionList"
    by (simp add: actionList_def)
  from request_options_path[OF a, of Map.empty "[''serviceId'' \<mapsto> JStr ''service-1'']"
         "Some [''path'' \<mapsto> JStr ''/v3'', ''timeout'' \<mapsto> JNum 5]" "Some True"]
  obtain p ob v where
    c: "call_api
         (new_ApiGwRequest
            (\<lambda>_ p ob v. Inr \<lparr>code = 0, message = None, \<dots> = (p, ob, v)\<rparr>
               :: unit + (json object \<times> json object \<times> bool) response_scheme)
            Map.empty)
         ''DescribeService''
         [''serviceId'' \<mapsto> JStr ''service-1'']
         (Some [''path'' \<mapsto> JStr ''/v3'', ''timeout'' \<mapsto> JNum 5])
         (Some True)
       = Some (Inr \<lparr>code = 0, message = None, \<dots> = (p, ob, v)\<rparr>)
       \<and> ob ''path'' = Some (JStr ''/v2/index.php'')
       \<and> (\<forall>k. k \<noteq> ''path'' \<longrightarrow>
              ob k = (case Some [''path'' \<mapsto> JStr ''/v3'', ''timeout'' \<mapsto> JNum 5] of
                        None \<Rightarrow> None | Some opts \<Rightarrow> opts k))
       \<and> (\<forall>(c :: (unit, unit) capi) c'.
             c p ob v = c' p ob v \<longrightarrow>
             call_api (new_ApiGwRequest (\<lambda>_. c) Map.empty) ''DescribeService''
               [''serviceId'' \<mapsto> JStr ''service-1'']
               (Some [''path'' \<mapsto> JStr ''/v3'', ''timeout'' \<mapsto> JNum 5]) (Some True)
             = call_api (new_ApiGwRequest (\<lambda>_. c') Map.empty) ''DescribeService''
                 [''serviceId'' \<mapsto> JStr ''service-1'']
                 (Some [''path'' \<mapsto> JStr ''/v3'', ''timeout'' \<mapsto> JNum 5]) (Some True))"
    by (elim exE) (rule that)
  note d = c[THEN conjunct2, THEN conjunct1]
  note e = c[THEN conjunct2, THEN conjunct2, THEN conjunct1]
  from e have 1: "ob ''timeout'' = Some (JNum 5)"
    by simp
  from e have 2: "ob ''host'' = None"
    by simp
  show ?thesis
    apply (rule exI[of _ p], rule exI[of _ ob], rule exI[of _ v])
    apply (intro conjI)
       apply (rule c[THEN conjunct1])
      apply (rule d)
     apply (rule 1)
    apply (rule 2)
    done
qed

text \<open>
  C5. After construction the action table has an entry for each of the 25 names of
  \<open>actionList\<close> and for no other name; the entry of a name calls \<open>request\<close> on the
  dispatcher's client with that name, the caller's arguments, and the existence-check flag
  set exactly for UnBindSecretIds, UnBindEnvironment, DeleteUsagePlan and DeleteApiKey.
\<close>

theorem apiFactory_table:
  "apis (new_ApiGwRequest Capi copts) =
     (\<lambda>name. if name \<in> set actionList
              then Some (\<lambda>data options isV3.
                           request (apiRequest (new_ApiGwRequest Capi copts)) name data options isV3
                             (Some (name \<in> {''UnBindSecretIds'', ''UnBindEnvironment'',
                                            ''DeleteUsagePlan'', ''DeleteApiKey''})))
              else None)
   \<and> dom (apis (new_ApiGwRequest Capi copts)) = set actionList
   \<and> distinct actionList \<and> length actionList = 25
   \<and> set needCheckAction \<subseteq> set actionList"
proof -
  have 1: "apis (new_ApiGwRequest Capi copts) =
     (\<lambda>name. if name \<in> set actionList
              then Some (\<lambda>data options isV3.
                           request (apiRequest (new_ApiGwRequest Capi copts)) name data options isV3
                             (Some (name \<in> {''UnBindSecretIds'', ''UnBindEnvironment'',
                                            ''DeleteUsagePlan'', ''DeleteApiKey''})))
              else None)"
    unfolding apis_new_ApiGwRequest
    by (rule ext) (simp only: apiFactory_apply needCheckAction_set)
  have 2: "dom (apis (new_ApiGwRequest Capi copts)) = set actionList"
    unfolding apis_new_ApiGwRequest by (auto simp: dom_def apiFactory_apply)
  have 3: "distinct actionList" "length actionList = 25"
    by (simp_all add: actionList_def)
  have 4: "set needCheckAction \<subseteq> set actionList"
    by (simp add: actionList_def needCheckAction_def)
  from 1 2 3 4 show ?thesis by blast
qed

section \<open>Properties of the validator\<close>

subsection \<open>Objects and the general validation routine\<close>

lemma get_set_prop: "get_prop (set_prop k v ob) k' = (if k' = k then Some v else get_prop ob k')"
  by (induction ob) (auto simp: get_prop_def)

lemma get_delete_prop: "get_prop (delete_prop k ob) k' = (if k' = k then None else get_prop ob k')"
  by (induction ob) (auto simp: get_prop_def delete_prop_def)

lemma validate_None:
  "validate e s opts k None =
     (case flags_presence s of
        Optional \<Rightarrow> \<lparr> rvalue = flags_default s, rerrors = [] \<rparr>
      | Required \<Rightarrow> \<lparr> rvalue = flags_default s, rerrors = [Item k (flags_error s) Any_required []] \<rparr>)"
  by (simp add: validate_def finish_def createError_def split: presence.splits)

lemma validate_Some_value: "\<exists>v'. rvalue (validate e s opts k (Some v)) = Some v'"
  by (simp add: validate_def finish_def Let_def split: prod.splits option.splits)

lemma validate_Some_ok:
  assumes "rerrors (validate e s opts k (Some v)) = []"
  shows "v \<notin> set (invalids s) \<and>
         (\<exists>v'. base s e (case settings s of None \<Rightarrow> opts | Some st \<Rightarrow> st) (flags_error s) k v = (v', [])
               \<and> run_tests (tests s) v' = None
               \<and> rvalue (validate e s opts k (Some v)) = Some v')"
  using assms
  by (auto simp: validate_def finish_def Let_def createError_def split: prod.splits option.splits if_splits)

lemma validate_Some_base_err:
  assumes "v \<notin> set (invalids s)"
    and "base s e (case settings s of None \<Rightarrow> opts | Some st \<Rightarrow> st) (flags_error s) k v = (v', errs)"
    and "errs \<noteq> []"
  shows "rerrors (validate e s opts k (Some v)) = errs"
  using assms by (simp add: validate_def finish_def Let_def)

lemma validate_Some_pass:
  assumes "v \<notin> set (invalids s)"
    and "base s e (case settings s of None \<Rightarrow> opts | Some st \<Rightarrow> st) (flags_error s) k v = (v', [])"
    and "v' \<notin> set (invalids s)"
  shows "validate e s opts k (Some v) =
           (case run_tests (tests s) v' of
              Some t \<Rightarrow> \<lparr> rvalue = Some v', rerrors = [Item k (flags_error s) t []] \<rparr>
            | None \<Rightarrow> \<lparr> rvalue = Some v', rerrors = [] \<rparr>)"
  using assms by (simp add: validate_def finish_def Let_def createError_def split: option.splits)

text \<open>
  When the keys of an object schema pass, every child passed on the property it was given,
  the result holds what the child returned, and the other properties are untouched.
\<close>

lemma validate_children_ok:
  assumes "distinct (map fst ch)"
    and "validate_children e opts ferr ch target = (target', [])"
  shows "(\<forall>k. k \<notin> fst ` set ch \<longrightarrow> get_prop target' k = get_prop target k) \<and>
         (\<forall>(k, c) \<in> set ch.
            rerrors (validate e c opts k (get_prop target k)) = [] \<and>
            get_prop target' k = rvalue (validate e c opts k (get_prop target k)))"
  using assms
proof (induction ch arbitrary: target)
  case Nil
  then show ?case by simp
next
  case (Cons a ch)
  obtain k0 c0 where a: "a = (k0, c0)" by (cases a)
  let ?r = "validate e c0 opts k0 (get_prop target k0)"
  let ?t = "(case rvalue ?r of
                None \<Rightarrow> (if get_prop target k0 \<noteq> None then delete_prop k0 target else target)
              | Some v \<Rightarrow> set_prop k0 v target)"
  from Cons.prems(2) have r0: "rerrors ?r = []"
    by (auto simp: a Let_def split: if_splits)
  with Cons.prems(2) have rec: "validate_children e opts ferr ch ?t = (target', [])"
    by (simp add: a Let_def)
  from Cons.prems(1) have d: "distinct (map fst ch)" and nk: "k0 \<notin> fst ` set ch"
    by (auto simp: a)
  note IH = Cons.IH[OF d rec]
  have other: "get_prop ?t k = get_prop target k" if "k \<noteq> k0" for k
    using that by (auto simp: get_set_prop get_delete_prop split: option.splits)
  have self: "get_prop ?t k0 = rvalue ?r"
    by (auto simp: get_set_prop get_delete_prop split: option.splits)
  show ?case
  proof (intro conjI allI impI ballI)
    fix k assume "k \<notin> fst ` set (a # ch)"
    then have "k \<noteq> k0" "k \<notin> fst ` set ch" by (auto simp: a)
    with IH other show "get_prop target' k = get_prop target k" by auto
  next
    fix x assume x: "x \<in> set (a # ch)"
    obtain k c where xc: "x = (k, c)" by (cases x)
    show "case x of (k, c) \<Rightarrow>
            rerrors (validate e c opts k (get_prop target k)) = [] \<and>
            get_prop target' k = rvalue (validate e c opts k (get_prop target k))"
    proof (cases "x = a")
      case True
      then have "k = k0" "c = c0" using a xc by auto
      moreover have "get_prop target' k0 = get_prop ?t k0" using IH nk by blast
      ultimately show ?thesis using r0 self xc by simp
    next
      case False
      then have m: "(k, c) \<in> set ch" using x xc by auto
      then have "k \<noteq> k0" using nk by force
      with IH m other show ?thesis unfolding xc by fastforce
    qed
  qed
qed


text \<open>A child that fails on its property makes the object fail.\<close>

lemma validate_children_err:
  assumes "distinct (map fst ch)"
    and "(k, c) \<in> set ch"
    and "rerrors (validate e c opts k (get_prop target k)) \<noteq> []"
  shows "snd (validate_children e opts ferr ch target) \<noteq> []"
  using assms
proof (induction ch arbitrary: target)
  case Nil
  then show ?case by simp
next
  case (Cons a ch)
  obtain k0 c0 where a: "a = (k0, c0)" by (cases a)
  let ?r = "validate e c0 opts k0 (get_prop target k0)"
  let ?t = "(case rvalue ?r of
                None \<Rightarrow> (if get_prop target k0 \<noteq> None then delete_prop k0 target else target)
              | Some v \<Rightarrow> set_prop k0 v target)"
  show ?case
  proof (cases "rerrors ?r = []")
    case False
    then show ?thesis by (simp add: a Let_def)
  next
    case True
    then have ne: "(k, c) \<noteq> (k0, c0)" using Cons.prems(3) by auto
    then have m: "(k, c) \<in> set ch" using Cons.prems(2) a by auto
    from Cons.prems(1) have d: "distinct (map fst ch)" and nk: "k0 \<notin> fst ` set ch"
      by (auto simp: a)
    from m nk have "k \<noteq> k0" by force
    then have "get_prop ?t k = get_prop target k"
      by (auto simp: get_set_prop get_delete_prop split: option.splits)
    with Cons.prems(3) have "rerrors (validate e c opts k (get_prop ?t k)) \<noteq> []" by simp
    from Cons.IH[OF d m this] True show ?thesis by (simp add: a Let_def)
  qed
qed

text \<open>When only one child fails, the error of the object is that child's error.\<close>

lemma validate_children_first_failure:
  assumes "distinct (map fst ch)"
    and "(k, c) \<in> set ch"
    and "rerrors (validate e c opts k (get_prop target k)) \<noteq> []"
    and "\<forall>(k', c') \<in> set ch. k' \<noteq> k \<longrightarrow> rerrors (validate e c' opts k' (get_prop target k')) = []"
  shows "snd (validate_children e opts ferr ch target) =
           [Item k ferr (Object_child k) (rerrors (validate e c opts k (get_prop target k)))]"
  using assms
proof (induction ch arbitrary: target)
  case Nil
  then show ?case by simp
next
  case (Cons a ch)
  obtain k0 c0 where a: "a = (k0, c0)" by (cases a)
  let ?r = "validate e c0 opts k0 (get_prop target k0)"
  let ?t = "(case rvalue ?r of
                None \<Rightarrow> (if get_prop target k0 \<noteq> None then delete_prop k0 target else target)
              | Some v \<Rightarrow> set_prop k0 v target)"
  from Cons.prems(1) have d: "distinct (map fst ch)" and nk: "k0 \<notin> fst ` set ch"
    by (auto simp: a)
  show ?case
  proof (cases "k0 = k")
    case True
    have "c0 = c"
    proof (rule ccontr)
      assume "c0 \<noteq> c"
      then have "(k, c) \<in> set ch" using Cons.prems(2) a True by auto
      then show False using nk True by force
    qed
    then show ?thesis using Cons.prems(3) True by (simp add: a Let_def)
  next
    case False
    then have m: "(k, c) \<in> set ch" using Cons.prems(2) a by auto
    from False Cons.prems(4) have r0: "rerrors ?r = []" by (auto simp: a)
    have same: "get_prop ?t k' = get_prop target k'" if "k' \<noteq> k0" for k'
      using that by (auto simp: get_set_prop get_delete_prop split: option.splits)
    have p3: "rerrors (validate e c opts k (get_prop ?t k)) \<noteq> []"
      using Cons.prems(3) same[of k] False by simp
    have p4: "\<forall>(k', c') \<in> set ch. k' \<noteq> k \<longrightarrow> rerrors (validate e c' opts k' (get_prop ?t k')) = []"
    proof (clarify)
      fix k' c' assume kc: "(k', c') \<in> set ch" "k' \<noteq> k"
      then have "k' \<noteq> k0" using nk by force
      with kc Cons.prems(4) same[of k'] show "rerrors (validate e c' opts k' (get_prop ?t k')) = []"
        by auto
    qed
    from Cons.IH[OF d m p3 p4] r0 same[of k] False show ?thesis
      by (simp add: a Let_def)
  qed
qed

text \<open>When every child passes on its property, the keys of the object pass.\<close>

lemma validate_children_all_pass:
  assumes "distinct (map fst ch)"
    and "\<forall>(k, c) \<in> set ch. rerrors (validate e c opts k (get_prop target k)) = []"
  shows "snd (validate_children e opts ferr ch target) = []"
  using assms
proof (induction ch arbitrary: target)
  case Nil
  then show ?case by simp
next
  case (Cons a ch)
  obtain k0 c0 where a: "a = (k0, c0)" by (cases a)
  let ?r = "validate e c0 opts k0 (get_prop target k0)"
  let ?t = "(case rvalue ?r of
                None \<Rightarrow> (if get_prop target k0 \<noteq> None then delete_prop k0 target else target)
              | Some v \<Rightarrow> set_prop k0 v target)"
  from Cons.prems(1) have d: "distinct (map fst ch)" and nk: "k0 \<notin> fst ` set ch"
    by (auto simp: a)
  from Cons.prems(2) have r0: "rerrors ?r = []" by (auto simp: a)
  have same: "get_prop ?t k' = get_prop target k'" if "k' \<noteq> k0" for k'
    using that by (auto simp: get_set_prop get_delete_prop split: option.splits)
  have "\<forall>(k, c) \<in> set ch. rerrors (validate e c opts k (get_prop ?t k)) = []"
  proof (clarify)
    fix k c assume kc: "(k, c) \<in> set ch"
    then have "k \<noteq> k0" using nk by force
    with kc Cons.prems(2) same[of k] show "rerrors (validate e c opts k (get_prop ?t k)) = []"
      by auto
  qed
  from Cons.IH[OF d this] r0 show ?case by (simp add: a Let_def)
qed

subsection \<open>Array items\<close>

lemma checkItems_none: "checkItems e opts ferr key w None n xs = (xs, [])"
  by (induction xs arbitrary: n) auto

lemma checkItems_ok:
  assumes "checkItems e opts ferr key w (Some inc) n xs = (ys, [])"
  shows "length ys = length xs \<and>
         (\<forall>i<length xs.
            rerrors (validate e inc opts (if w then show_nat (n + i) else key) (Some (xs ! i))) = []
            \<and> rvalue (validate e inc opts (if w then show_nat (n + i) else key) (Some (xs ! i)))
                = Some (ys ! i))"
  using assms
proof (induction xs arbitrary: n ys)
  case Nil
  then show ?case by simp
next
  case (Cons x xs)
  let ?r = "validate e inc opts (if w then show_nat n else key) (Some x)"
  from Cons.prems have r0: "rerrors ?r = []"
    by (auto simp: Let_def split: if_splits)
  obtain y where y: "rvalue ?r = Some y" using validate_Some_value by blast
  obtain zs errs where rec: "checkItems e opts ferr key w (Some inc) (Suc n) xs = (zs, errs)"
    by (cases "checkItems e opts ferr key w (Some inc) (Suc n) xs")
  with Cons.prems r0 y have ys: "ys = y # zs" and e0: "errs = []"
    by (auto simp: Let_def)
  note IH = Cons.IH[OF rec[unfolded e0]]
  show ?case
  proof (intro conjI allI impI)
    show "length ys = length (x # xs)" using IH ys by simp
  next
    fix i assume i: "i < length (x # xs)"
    show "rerrors (validate e inc opts (if w then show_nat (n + i) else key) (Some ((x # xs) ! i))) = []"
      using i IH r0 by (cases i) auto
  next
    fix i assume i: "i < length (x # xs)"
    show "rvalue (validate e inc opts (if w then show_nat (n + i) else key) (Some ((x # xs) ! i)))
            = Some (ys ! i)"
      using i IH y ys by (cases i) auto
  qed
qed

lemma checkItems_err:
  assumes "i < length xs"
    and "\<forall>key'. rerrors (validate e inc opts key' (Some (xs ! i))) \<noteq> []"
  shows "snd (checkItems e opts ferr key w (Some inc) n xs) \<noteq> []"
  using assms
proof (induction xs arbitrary: n i)
  case Nil
  then show ?case by simp
next
  case (Cons x xs)
  let ?r = "validate e inc opts (if w then show_nat n else key) (Some x)"
  show ?case
  proof (cases "rerrors ?r = []")
    case False
    then show ?thesis by (simp add: Let_def)
  next
    case True
    then obtain j where j: "i = Suc j" using Cons.prems(2) by (cases i) auto
    obtain y where y: "rvalue ?r = Some y" using validate_Some_value by blast
    from Cons.IH[of j "Suc n"] Cons.prems j
    have "snd (checkItems e opts ferr key w (Some inc) (Suc n) xs) \<noteq> []" by simp
    with True y show ?thesis by (auto simp: Let_def split: prod.splits)
  qed
qed

lemma checkItems_first_failure:
  assumes "i < length xs"
    and "\<forall>j<i. rerrors (validate e inc opts (if w then show_nat (n + j) else key) (Some (xs ! j))) = []"
    and "rerrors (validate e inc opts (if w then show_nat (n + i) else key) (Some (xs ! i))) \<noteq> []"
  shows "snd (checkItems e opts ferr key w (Some inc) n xs) =
           [Item key ferr (Array_includesOne (n + i))
              (rerrors (validate e inc opts (if w then show_nat (n + i) else key) (Some (xs ! i))))]"
  using assms
proof (induction xs arbitrary: n i)
  case Nil
  then show ?case by simp
next
  case (Cons x xs)
  let ?r = "validate e inc opts (if w then show_nat n else key) (Some x)"
  show ?case
  proof (cases i)
    case 0
    with Cons.prems(3) show ?thesis by (auto simp: Let_def)
  next
    case (Suc j)
    from Cons.prems(2)[rule_format, of 0] Suc have r0: "rerrors ?r = []" by (cases w) simp_all
    obtain y where y: "rvalue ?r = Some y" using validate_Some_value by blast
    have p2: "\<forall>j'<j. rerrors (validate e inc opts (if w then show_nat (Suc n + j') else key) (Some (xs ! j'))) = []"
    proof (intro allI impI)
      fix j' assume "j' < j"
      then have "Suc j' < i" using Suc by simp
      from Cons.prems(2)[rule_format, OF this] show
        "rerrors (validate e inc opts (if w then show_nat (Suc n + j') else key) (Some (xs ! j'))) = []"
        by (cases w) simp_all
    qed
    have p3: "rerrors (validate e inc opts (if w then show_nat (Suc n + j) else key) (Some (xs ! j))) \<noteq> []"
      using Cons.prems(3) unfolding Suc by (cases w) simp_all
    have "j < length xs" using Cons.prems(1) Suc by simp
    from Cons.IH[of j "Suc n", OF this p2 p3] r0 y
    show ?thesis unfolding Suc by (auto simp: Let_def split: prod.splits)
  qed
qed

lemma checkItems_all_pass:
  assumes "\<forall>i<length xs. rerrors (validate e inc opts (if w then show_nat (n + i) else key) (Some (xs ! i))) = []"
  shows "snd (checkItems e opts ferr key w (Some inc) n xs) = []"
  using assms
proof (induction xs arbitrary: n)
  case Nil
  then show ?case by simp
next
  case (Cons x xs)
  let ?r = "validate e inc opts (if w then show_nat n else key) (Some x)"
  from Cons.prems[rule_format, of 0] have r0: "rerrors ?r = []" by (cases w) simp_all
  obtain y where y: "rvalue ?r = Some y" using validate_Some_value by blast
  have "\<forall>i<length xs. rerrors (validate e inc opts (if w then show_nat (Suc n + i) else key) (Some (xs ! i))) = []"
  proof (intro allI impI)
    fix i assume "i < length xs"
    then have "Suc i < length (x # xs)" by simp
    from Cons.prems[rule_format, OF this] show
      "rerrors (validate e inc opts (if w then show_nat (Suc n + i) else key) (Some (xs ! i))) = []"
      by (cases w) simp_all
  qed
  from Cons.IH[OF this] r0 y show ?case by (auto simp: Let_def split: prod.splits)
qed

subsection \<open>Objects and arrays through the validation routine\<close>

lemma validate_object:
  assumes "base s = object_base (Some ch)" and "invalids s = []" and "tests s = []"
    and "allowUnknown (case settings s of None \<Rightarrow> opts | Some st \<Rightarrow> st)"
  shows "validate e s opts k (Some (JObj props)) =
           \<lparr> rvalue = Some (JObj (fst (validate_children e
                          (case settings s of None \<Rightarrow> opts | Some st \<Rightarrow> st) (flags_error s) ch props))),
             rerrors = snd (validate_children e
                          (case settings s of None \<Rightarrow> opts | Some st \<Rightarrow> st) (flags_error s) ch props) \<rparr>"
  using assms
  by (simp add: validate_def finish_def Let_def object_base_def split: prod.splits option.splits)

lemma validate_array:
  assumes "base s = array_base inclusion" and "invalids s = []"
  shows "validate e s opts k (Some (JArr xs)) =
           (case checkItems e (case settings s of None \<Rightarrow> opts | Some st \<Rightarrow> st) (flags_error s) k True
                   inclusion 0 xs of
              (ys, errs) \<Rightarrow>
                if errs \<noteq> [] then \<lparr> rvalue = Some (JArr ys), rerrors = errs \<rparr>
                else case run_tests (tests s) (JArr ys) of
                       Some t \<Rightarrow> \<lparr> rvalue = Some (JArr ys), rerrors = [Item k (flags_error s) t []] \<rparr>
                     | None \<Rightarrow> \<lparr> rvalue = Some (JArr ys), rerrors = [] \<rparr>)"
  using assms
  by (simp add: validate_def finish_def Let_def array_base_def createError_def
           split: prod.splits option.splits)

subsection \<open>The schemas of Validate, level by level\<close>

lemma endpointsScheme_parts:
  "endpointsScheme = chain Joi_array [array_max 100, array_items endpointScheme, required]"
  by (simp add: endpointsScheme_def endpointScheme_def endpointKeys_def functionKeys_def authKeys_def)

lemma globalScheme_parts:
  "globalScheme = chain Joi_object [object_keys globalKeys, with_options \<lparr> allowUnknown = True \<rparr>]"
  by (simp add: globalScheme_def globalKeys_def)

lemmas builders =
  chain_def any_def optional_def required_def with_default_def with_error_def with_options_def
  test_def Joi_string_def Joi_number_def safe_range_def Joi_boolean_def Joi_array_def Joi_object_def
  string_min_def string_max_def regex_def number_integer_def number_min_def number_max_def
  array_items_def array_max_def object_keys_def

lemma globalScheme_fields:
  "base globalScheme = object_base (Some globalKeys)"
  "invalids globalScheme = []" "tests globalScheme = []"
  "settings globalScheme = Some \<lparr> allowUnknown = True \<rparr>"
  "flags_error globalScheme = None"
  by (simp_all add: globalScheme_parts builders)

lemma endpointsScheme_fields:
  "base endpointsScheme = array_base (Some endpointScheme)"
  "invalids endpointsScheme = []"
  "run_tests (tests endpointsScheme) (JArr ys) = (if length ys \<le> 100 then None else Some (Array_max 100))"
  "settings endpointsScheme = None"
  "flags_error endpointsScheme = None"
  "flags_presence endpointsScheme = Required"
  by (simp_all add: endpointsScheme_parts builders)

lemma endpointScheme_fields:
  "base endpointScheme = object_base (Some endpointKeys)"
  "invalids endpointScheme = []" "tests endpointScheme = []"
  "settings endpointScheme = None"
  "flags_error endpointScheme = None"
  by (simp_all add: endpointScheme_def builders)

lemma distinct_keys:
  "distinct (map fst globalKeys)" "distinct (map fst endpointKeys)"
  "distinct (map fst functionKeys)" "distinct (map fst usagePlanScheme)"
  "distinct (map fst authKeys)"
  by (simp_all add: globalKeys_def endpointKeys_def functionKeys_def usagePlanScheme_def authKeys_def)

lemma process_None: "process errs = None \<longleftrightarrow> errs = []"
  by (simp add: process_def split: option.splits)

lemma Validate_unfold:
  "Validate e (Some cfg) =
     (case process (rerrors (validate e globalScheme defaults [] (Some cfg))) of
        Some err \<Rightarrow> Inl err
      | None \<Rightarrow> Inr (rvalue (validate e globalScheme defaults [] (Some cfg))))"
  by (simp add: Validate_def Joi_validate_def Let_def split: option.splits)

lemma Validate_Inr_iff:
  "Validate e (Some cfg) = Inr out \<longleftrightarrow>
     rerrors (validate e globalScheme defaults [] (Some cfg)) = []
     \<and> out = rvalue (validate e globalScheme defaults [] (Some cfg))"
  using process_None[of "rerrors (validate e globalScheme defaults [] (Some cfg))"]
  by (auto simp: Validate_unfold split: option.splits)

lemma Validate_Inl:
  "rerrors (validate e globalScheme defaults [] (Some cfg)) \<noteq> [] \<Longrightarrow> \<exists>err. Validate e (Some cfg) = Inl err"
  using process_None[of "rerrors (validate e globalScheme defaults [] (Some cfg))"]
  by (auto simp: Validate_unfold split: option.splits)

lemma Validate_Inl_override:
  "processErrors (rerrors (validate e globalScheme defaults [] (Some cfg))) = Some m
     \<Longrightarrow> Validate e (Some cfg) = Inl (Error m)"
  by (auto simp: Validate_unfold process_def split: option.splits)

lemma validate_global:
  "validate e globalScheme defaults k (Some (JObj props)) =
     \<lparr> rvalue = Some (JObj (fst (validate_children e \<lparr> allowUnknown = True \<rparr> None globalKeys props))),
       rerrors = snd (validate_children e \<lparr> allowUnknown = True \<rparr> None globalKeys props) \<rparr>"
  using validate_object[of globalScheme globalKeys defaults e k props]
  by (simp add: globalScheme_fields)

lemma validate_endpoint:
  "validate e endpointScheme \<lparr> allowUnknown = True \<rparr> k (Some (JObj props)) =
     \<lparr> rvalue = Some (JObj (fst (validate_children e \<lparr> allowUnknown = True \<rparr> None endpointKeys props))),
       rerrors = snd (validate_children e \<lparr> allowUnknown = True \<rparr> None endpointKeys props) \<rparr>"
  using validate_object[of endpointScheme endpointKeys "\<lparr> allowUnknown = True \<rparr>" e k props]
  by (simp add: endpointScheme_fields)

lemma validate_keys_object:
  "validate e (chain Joi_object (object_keys ch # mods)) \<lparr> allowUnknown = True \<rparr> k (Some (JObj props)) =
     \<lparr> rvalue = Some (JObj (fst (validate_children e \<lparr> allowUnknown = True \<rparr> None ch props))),
       rerrors = snd (validate_children e \<lparr> allowUnknown = True \<rparr> None ch props) \<rparr>"
  if "mods = [] \<or> mods = [required]"
  using that validate_object[of "chain Joi_object (object_keys ch # mods)" ch "\<lparr> allowUnknown = True \<rparr>" e k props]
  by (auto simp: builders)

lemma validate_endpoints:
  "validate e endpointsScheme \<lparr> allowUnknown = True \<rparr> k (Some (JArr xs)) =
     (case checkItems e \<lparr> allowUnknown = True \<rparr> None k True (Some endpointScheme) 0 xs of
        (ys, errs) \<Rightarrow>
          if errs \<noteq> [] then \<lparr> rvalue = Some (JArr ys), rerrors = errs \<rparr>
          else if length ys \<le> 100 then \<lparr> rvalue = Some (JArr ys), rerrors = [] \<rparr>
          else \<lparr> rvalue = Some (JArr ys), rerrors = [Item k None (Array_max 100) []] \<rparr>)"
  using validate_array[of endpointsScheme "Some endpointScheme" e "\<lparr> allowUnknown = True \<rparr>" k xs]
  by (simp add: endpointsScheme_fields split: prod.splits)

subsection \<open>Paths\<close>

lemma get_path_Key:
  "get_path cfg (Key k # p) = Some v \<longleftrightarrow>
     (\<exists>props x. cfg = JObj props \<and> get_prop props k = Some x \<and> get_path x p = Some v)"
  by (cases cfg) (auto split: option.splits)

lemma get_path_Index:
  "get_path cfg (Index i # p) = Some v \<longleftrightarrow>
     (\<exists>xs. cfg = JArr xs \<and> i < length xs \<and> get_path (xs ! i) p = Some v)"
  by (cases cfg) (auto split: option.splits)

lemma get_path_Nil: "get_path cfg [] = Some v \<longleftrightarrow> v = cfg"
  by auto

subsection \<open>A failing part makes the configuration fail\<close>

lemma global_child_err:
  assumes "(k, c) \<in> set globalKeys"
    and "rerrors (validate e c \<lparr> allowUnknown = True \<rparr> k (get_prop props k)) \<noteq> []"
  shows "\<exists>err. Validate e (Some (JObj props)) = Inl err"
  using validate_children_err[OF distinct_keys(1) assms, of None]
  by (intro Validate_Inl) (simp add: validate_global)

lemma endpoint_child_err:
  assumes "(k, c) \<in> set endpointKeys"
    and "rerrors (validate e c \<lparr> allowUnknown = True \<rparr> k (get_prop ep k)) \<noteq> []"
  shows "rerrors (validate e endpointScheme \<lparr> allowUnknown = True \<rparr> key (Some (JObj ep))) \<noteq> []"
  using validate_children_err[OF distinct_keys(2) assms, of None]
  by (simp add: validate_endpoint)

lemma keys_object_child_err:
  assumes "mods = [] \<or> mods = [required]"
    and "distinct (map fst ch)"
    and "(k, c) \<in> set ch"
    and "rerrors (validate e c \<lparr> allowUnknown = True \<rparr> k (get_prop props k)) \<noteq> []"
  shows "rerrors (validate e (chain Joi_object (object_keys ch # mods)) \<lparr> allowUnknown = True \<rparr> key
           (Some (JObj props))) \<noteq> []"
  using validate_children_err[OF assms(2,3,4), of None]
  by (simp add: validate_keys_object[OF assms(1)])

lemma endpoints_item_err:
  assumes "i < length eps"
    and "\<forall>key. rerrors (validate e endpointScheme \<lparr> allowUnknown = True \<rparr> key (Some (eps ! i))) \<noteq> []"
  shows "rerrors (validate e endpointsScheme \<lparr> allowUnknown = True \<rparr> k (Some (JArr eps))) \<noteq> []"
  using checkItems_err[OF assms, of None k True 0]
  by (auto simp: validate_endpoints split: prod.splits)

lemma endpoints_too_long:
  assumes "length eps > 100"
  shows "rerrors (validate e endpointsScheme \<lparr> allowUnknown = True \<rparr> k (Some (JArr eps))) \<noteq> []"
proof -
  obtain ys errs where c: "checkItems e \<lparr> allowUnknown = True \<rparr> None k True (Some endpointScheme) 0 eps = (ys, errs)"
    by (cases "checkItems e \<lparr> allowUnknown = True \<rparr> None k True (Some endpointScheme) 0 eps")
  show ?thesis
  proof (cases "errs = []")
    case True
    with checkItems_ok c have "length ys = length eps" by blast
    with assms c True show ?thesis by (simp add: validate_endpoints)
  next
    case False
    with c show ?thesis by (simp add: validate_endpoints)
  qed
qed

lemma secretIds_too_long:
  assumes "length ids > 100"
  shows "rerrors (validate e (chain Joi_array [array_max 100]) \<lparr> allowUnknown = True \<rparr> k (Some (JArr ids))) \<noteq> []"
  using assms validate_array[of "chain Joi_array [array_max 100]" None e "\<lparr> allowUnknown = True \<rparr>" k ids]
  by (simp add: builders checkItems_none)

lemma globalKeys_mem:
  "(''endpoints'', endpointsScheme) \<in> set globalKeys"
  by (simp add: globalKeys_def)

lemma endpointKeys_mem:
  "(''function'', chain Joi_object [object_keys functionKeys, required]) \<in> set endpointKeys"
  "(''usagePlan'', chain Joi_object [object_keys usagePlanScheme]) \<in> set endpointKeys"
  "(''auth'', chain Joi_object [object_keys authKeys]) \<in> set endpointKeys"
  by (simp_all add: endpointKeys_def)

text \<open>
  C7. A configuration whose \<open>endpoints\<close> array has more than 100 elements is rejected, and so
  is a configuration in which the \<open>auth.secretIds\<close> array of some endpoint has more than 100
  elements.
\<close>

theorem validate_rejects_long_arrays:
  "(get_path cfg [Key ''endpoints''] = Some (JArr eps) \<and> length eps > 100
      \<longrightarrow> (\<exists>err. Validate e (Some cfg) = Inl err))
   \<and> (get_path cfg [Key ''endpoints'', Index i, Key ''auth'', Key ''secretIds''] = Some (JArr ids)
        \<and> length ids > 100
      \<longrightarrow> (\<exists>err. Validate e (Some cfg) = Inl err))"
proof (intro conjI impI)
  assume a: "get_path cfg [Key ''endpoints''] = Some (JArr eps) \<and> length eps > 100"
  then obtain props where cfg: "cfg = JObj props" and ep: "get_prop props ''endpoints'' = Some (JArr eps)"
    by (auto simp: get_path_Key)
  show "\<exists>err. Validate e (Some cfg) = Inl err"
    unfolding cfg using a endpoints_too_long[of eps e "''endpoints''"]
    by (intro global_child_err[OF globalKeys_mem]) (simp add: ep)
next
  assume a: "get_path cfg [Key ''endpoints'', Index i, Key ''auth'', Key ''secretIds''] = Some (JArr ids)
        \<and> length ids > 100"
  then obtain props eps ep au where cfg: "cfg = JObj props"
    and eps: "get_prop props ''endpoints'' = Some (JArr eps)"
    and i: "i < length eps" and ep: "eps ! i = JObj ep"
    and au: "get_prop ep ''auth'' = Some (JObj au)"
    and ids: "get_prop au ''secretIds'' = Some (JArr ids)"
    by (auto simp: get_path_Key get_path_Index)
  have 1: "rerrors (validate e (chain Joi_object [object_keys authKeys]) \<lparr> allowUnknown = True \<rparr> key
             (Some (JObj au))) \<noteq> []" for key
    using a secretIds_too_long[of ids e "''secretIds''"]
    by (intro keys_object_child_err[where k = "''secretIds''" and c = "chain Joi_array [array_max 100]"])
       (simp_all add: distinct_keys ids authKeys_def)
  have 2: "rerrors (validate e endpointScheme \<lparr> allowUnknown = True \<rparr> key (Some (eps ! i))) \<noteq> []" for key
    unfolding ep using 1 by (intro endpoint_child_err[OF endpointKeys_mem(3)]) (simp add: au)
  have 3: "rerrors (validate e endpointsScheme \<lparr> allowUnknown = True \<rparr> ''endpoints'' (Some (JArr eps))) \<noteq> []"
    using 2 by (intro endpoints_item_err[OF i]) simp
  show "\<exists>err. Validate e (Some cfg) = Inl err"
    unfolding cfg using 3 by (intro global_child_err[OF globalKeys_mem]) (simp add: eps)
qed


theorem validate_rejects_long_arrays_witness:
  "(\<exists>err. Validate \<lparr> JSON_parse = (\<lambda>_. None), toNumber = (\<lambda>_. NotANumber) \<rparr>
      (Some (JObj [(''serviceName'', JStr ''svc''),
                   (''endpoints'',
                      JArr (replicate 101
                        (JObj [(''path'', JStr ''/''), (''method'', JStr ''GET''),
                               (''function'', JObj [(''functionName'', JStr ''f'')])])))]))
      = Inl err)
   \<and> (\<exists>err. Validate \<lparr> JSON_parse = (\<lambda>_. None), toNumber = (\<lambda>_. NotANumber) \<rparr>
      (Some (JObj [(''serviceName'', JStr ''svc''),
                   (''endpoints'',
                      JArr [JObj [(''path'', JStr ''/''), (''method'', JStr ''GET''),
                                  (''function'', JObj [(''functionName'', JStr ''f'')]),
                                  (''auth'', JObj [(''secretName'', JStr ''s''),
                                                   (''secretIds'', JArr (replicate 101 (JStr ''id'')))])]])]))
      = Inl err)"
proof -
  let ?e = "\<lparr> JSON_parse = (\<lambda>_. None), toNumber = (\<lambda>_. NotANumber) \<rparr>"
  let ?ep = "JObj [(''path'', JStr ''/''), (''method'', JStr ''GET''),
                   (''function'', JObj [(''functionName'', JStr ''f'')])]"
  let ?c1 = "JObj [(''serviceName'', JStr ''svc''), (''endpoints'', JArr (replicate 101 ?ep))]"
  let ?c2 = "JObj [(''serviceName'', JStr ''svc''),
                   (''endpoints'',
                      JArr [JObj [(''path'', JStr ''/''), (''method'', JStr ''GET''),
                                  (''function'', JObj [(''functionName'', JStr ''f'')]),
                                  (''auth'', JObj [(''secretName'', JStr ''s''),
                                                   (''secretIds'', JArr (replicate 101 (JStr ''id'')))])]])]"
  have h1: "get_path ?c1 [Key ''endpoints''] = Some (JArr (replicate 101 ?ep)) \<and>
            length (replicate 101 ?ep) > 100"
    by (simp add: get_prop_def)
  have h2: "get_path ?c2 [Key ''endpoints'', Index 0, Key ''auth'', Key ''secretIds'']
              = Some (JArr (replicate 101 (JStr ''id''))) \<and>
            length (replicate 101 (JStr ''id'')) > 100"
    by (simp add: get_prop_def)
  from validate_rejects_long_arrays[where cfg = ?c1 and eps = "replicate 101 ?ep" and e = ?e] h1
  have 1: "\<exists>err. Validate ?e (Some ?c1) = Inl err" by blast
  from validate_rejects_long_arrays[where cfg = ?c2 and i = 0 and ids = "replicate 101 (JStr ''id'')"
      and e = ?e] h2
  have 2: "\<exists>err. Validate ?e (Some ?c2) = Inl err" by blast
  from 1 2 show ?thesis by blast
qed

subsection \<open>What acceptance says about each level\<close>

lemma accepted_global:
  assumes "Validate e (Some (JObj props)) = Inr out"
  obtains t where "out = Some (JObj t)"
    and "validate_children e \<lparr> allowUnknown = True \<rparr> None globalKeys props = (t, [])"
  using assms by (auto simp: Validate_Inr_iff validate_global prod_eq_iff)

lemma accepted_endpoint:
  assumes "validate_children e \<lparr> allowUnknown = True \<rparr> None globalKeys props = (t, [])"
    and "get_prop props ''endpoints'' = Some (JArr eps)"
  obtains ys where "get_prop t ''endpoints'' = Some (JArr ys)" and "length ys = length eps"
    and "\<And>i ep. i < length eps \<Longrightarrow> eps ! i = JObj ep \<Longrightarrow>
           \<exists>ti. ys ! i = JObj ti \<and>
                validate_children e \<lparr> allowUnknown = True \<rparr> None endpointKeys ep = (ti, [])"
proof -
  let ?r = "validate e endpointsScheme \<lparr> allowUnknown = True \<rparr> ''endpoints'' (Some (JArr eps))"
  from validate_children_ok[OF distinct_keys(1) assms(1)] globalKeys_mem assms(2)
  have r: "rerrors ?r = []" "get_prop t ''endpoints'' = rvalue ?r"
    by fastforce+
  obtain ys errs where c: "checkItems e \<lparr> allowUnknown = True \<rparr> None ''endpoints'' True
      (Some endpointScheme) 0 eps = (ys, errs)"
    by (cases "checkItems e \<lparr> allowUnknown = True \<rparr> None ''endpoints'' True (Some endpointScheme) 0 eps")
  from r(1) c have e0: "errs = []"
    by (auto simp: validate_endpoints split: if_splits)
  with r c have 1: "get_prop t ''endpoints'' = Some (JArr ys)"
    by (auto simp: validate_endpoints split: if_splits)
  note ok = checkItems_ok[OF c[unfolded e0]]
  have 3: "\<exists>ti. ys ! i = JObj ti \<and>
                validate_children e \<lparr> allowUnknown = True \<rparr> None endpointKeys ep = (ti, [])"
    if "i < length eps" "eps ! i = JObj ep" for i ep
  proof -
    from ok that have
      "rerrors (validate e endpointScheme \<lparr> allowUnknown = True \<rparr> (show_nat i) (Some (JObj ep))) = []"
      "rvalue (validate e endpointScheme \<lparr> allowUnknown = True \<rparr> (show_nat i) (Some (JObj ep))) = Some (ys ! i)"
      by force+
    then show ?thesis by (auto simp: validate_endpoint prod_eq_iff)
  qed
  from that[OF 1 _ 3] ok show thesis by blast
qed

lemma accepted_sub:
  assumes "validate_children e \<lparr> allowUnknown = True \<rparr> None keys ep = (ti, [])"
    and "distinct (map fst keys)"
    and "(k, chain Joi_object (object_keys ch # mods)) \<in> set keys"
    and "mods = [] \<or> mods = [required]"
    and "get_prop ep k = Some (JObj f)"
  obtains tf where "get_prop ti k = Some (JObj tf)"
    and "validate_children e \<lparr> allowUnknown = True \<rparr> None ch f = (tf, [])"
proof -
  from validate_children_ok[OF assms(2,1)] assms(3,5)
  have "rerrors (validate e (chain Joi_object (object_keys ch # mods)) \<lparr> allowUnknown = True \<rparr> k (Some (JObj f))) = []"
    "get_prop ti k = rvalue (validate e (chain Joi_object (object_keys ch # mods)) \<lparr> allowUnknown = True \<rparr> k (Some (JObj f)))"
    by fastforce+
  then show thesis
    using that by (auto simp: validate_keys_object[OF assms(4)] prod_eq_iff)
qed

lemma child_default:
  assumes "validate_children e opts ferr ch target = (t, [])"
    and "distinct (map fst ch)"
    and "(k, c) \<in> set ch"
    and "get_prop target k = None"
    and "flags_presence c = Optional"
  shows "get_prop t k = flags_default c"
  using validate_children_ok[OF assms(2,1)] assms(3,4,5)
  by (fastforce simp: validate_None)

lemma child_unknown:
  assumes "validate_children e opts ferr ch target = (t, [])"
    and "distinct (map fst ch)"
    and "k \<notin> fst ` set ch"
  shows "get_prop t k = get_prop target k"
  using validate_children_ok[OF assms(2,1)] assms(3) by blast

subsection \<open>Defaults\<close>

lemma omitted_iff:
  "omitted cfg p k \<longleftrightarrow> (\<exists>props. get_path cfg p = Some (JObj props) \<and> get_prop props k = None)"
  by (auto simp: omitted_def split: option.splits json.splits)

lemma key_facts:
  "(''region'', chain Joi_string [optional, with_default (JStr ''ap-guangzhou'')]) \<in> set globalKeys"
  "(''protocol'', chain Joi_string [regex (Anchored_alternatives [''http'', ''https'', ''http&https'']),
       optional, with_default (JStr ''http'')]) \<in> set globalKeys"
  "(''environment'', chain Joi_string [regex (Anchored_alternatives [''prepub'', ''test'', ''release'']),
       optional, with_default (JStr ''release'')]) \<in> set globalKeys"
  "(''enableCORS'', chain Joi_boolean [optional, with_default (JBool False)]) \<in> set endpointKeys"
  "(''isIntegratedResponse'', chain Joi_boolean [optional, with_default (JBool False)]) \<in> set functionKeys"
  "(''functionQualifier'', chain Joi_string [optional, with_default (JStr ''$LATEST'')]) \<in> set functionKeys"
  "(''maxRequestNum'', chain Joi_number [number_integer, number_min 1, number_max 99999999, optional,
       with_default (JNum (- 1))]) \<in> set usagePlanScheme"
  "(''maxRequestNumPreSec'', chain Joi_number [number_integer, number_min 1, number_max 2000, optional,
       with_default (JNum 1000)]) \<in> set usagePlanScheme"
  "(''serviceTimeout'', chain Joi_number [number_integer, optional, with_default (JNum 15)]) \<in> set authKeys"
  by (simp_all add: globalKeys_def endpointKeys_def functionKeys_def usagePlanScheme_def authKeys_def)

lemma accepted_result:
  assumes "Validate e (Some cfg) = Inr out"
  shows "\<exists>res. out = Some res"
  using assms validate_Some_value[of e globalScheme defaults "[]" cfg]
  by (auto simp: Validate_Inr_iff)

lemma accepted_top_default:
  assumes "Validate e (Some cfg) = Inr (Some res)"
    and om: "omitted cfg [] k" and mem: "(k, c) \<in> set globalKeys"
    and c: "flags_presence c = Optional" "flags_default c = Some d"
  shows "get_path res [Key k] = Some d"
proof -
  from om obtain props where cfg: "cfg = JObj props" and k: "get_prop props k = None"
    by (auto simp: omitted_iff)
  from assms(1)[unfolded cfg] obtain t where t: "res = JObj t"
    "validate_children e \<lparr> allowUnknown = True \<rparr> None globalKeys props = (t, [])"
    by (rule accepted_global) auto
  from child_default[OF t(2) distinct_keys(1) mem k c(1)] c(2) show ?thesis
    by (simp add: t(1))
qed

lemma accepted_endpoint_keys:
  assumes "Validate e (Some cfg) = Inr (Some res)"
    and "get_path cfg [Key ''endpoints'', Index i] = Some (JObj ep)"
  shows "\<exists>t ys ti. res = JObj t \<and> get_prop t ''endpoints'' = Some (JArr ys) \<and>
      i < length ys \<and> ys ! i = JObj ti \<and>
      validate_children e \<lparr> allowUnknown = True \<rparr> None endpointKeys ep = (ti, [])"
proof -
  from assms(2) obtain props eps where cfg: "cfg = JObj props"
    and eps: "get_prop props ''endpoints'' = Some (JArr eps)" and i: "i < length eps"
    and ep: "eps ! i = JObj ep"
    by (auto simp: get_path_Key get_path_Index)
  from assms(1)[unfolded cfg] obtain t where t: "res = JObj t"
    "validate_children e \<lparr> allowUnknown = True \<rparr> None globalKeys props = (t, [])"
    by (rule accepted_global) auto
  from accepted_endpoint[OF t(2) eps] i ep t(1) show ?thesis
    by metis
qed

lemma accepted_endpoint_default:
  assumes "Validate e (Some cfg) = Inr (Some res)"
    and om: "omitted cfg [Key ''endpoints'', Index i] k" and mem: "(k, c) \<in> set endpointKeys"
    and c: "flags_presence c = Optional" "flags_default c = Some d"
  shows "get_path res [Key ''endpoints'', Index i, Key k] = Some d"
proof -
  from om obtain ep where p: "get_path cfg [Key ''endpoints'', Index i] = Some (JObj ep)"
    and k: "get_prop ep k = None"
    by (auto simp: omitted_iff)
  from accepted_endpoint_keys[OF assms(1) p] obtain t ys ti where r: "res = JObj t"
    "get_prop t ''endpoints'' = Some (JArr ys)" "i < length ys" "ys ! i = JObj ti"
    "validate_children e \<lparr> allowUnknown = True \<rparr> None endpointKeys ep = (ti, [])"
    by blast
  from child_default[OF r(5) distinct_keys(2) mem k c(1)] c(2) r show ?thesis
    by simp
qed

lemma accepted_sub_keys:
  assumes "Validate e (Some cfg) = Inr (Some res)"
    and "get_path cfg [Key ''endpoints'', Index i, Key s] = Some (JObj f)"
    and smem: "(s, chain Joi_object (object_keys ch # mods)) \<in> set endpointKeys"
    and mods: "mods = [] \<or> mods = [required]"
  shows "\<exists>tf. get_path res [Key ''endpoints'', Index i, Key s] = Some (JObj tf) \<and>
      validate_children e \<lparr> allowUnknown = True \<rparr> None ch f = (tf, [])"
proof -
  from assms(2) obtain ep where p: "get_path cfg [Key ''endpoints'', Index i] = Some (JObj ep)"
    and f: "get_prop ep s = Some (JObj f)"
    by (auto simp: get_path_Key get_path_Index)
  from accepted_endpoint_keys[OF assms(1) p] obtain t ys ti where r: "res = JObj t"
    "get_prop t ''endpoints'' = Some (JArr ys)" "i < length ys" "ys ! i = JObj ti"
    "validate_children e \<lparr> allowUnknown = True \<rparr> None endpointKeys ep = (ti, [])"
    by blast
  from accepted_sub[OF r(5) distinct_keys(2) smem mods f] obtain tf where
    tf: "get_prop ti s = Some (JObj tf)"
      "validate_children e \<lparr> allowUnknown = True \<rparr> None ch f = (tf, [])"
    by blast
  with r show ?thesis by simp
qed

lemma accepted_sub_default:
  assumes "Validate e (Some cfg) = Inr (Some res)"
    and om: "omitted cfg [Key ''endpoints'', Index i, Key s] k"
    and smem: "(s, chain Joi_object (object_keys ch # mods)) \<in> set endpointKeys"
    and mods: "mods = [] \<or> mods = [required]"
    and dist: "distinct (map fst ch)"
    and mem: "(k, c) \<in> set ch"
    and c: "flags_presence c = Optional" "flags_default c = Some d"
  shows "get_path res [Key ''endpoints'', Index i, Key s, Key k] = Some d"
proof -
  from om obtain f where p: "get_path cfg [Key ''endpoints'', Index i, Key s] = Some (JObj f)"
    and k: "get_prop f k = None"
    by (auto simp: omitted_iff)
  from accepted_sub_keys[OF assms(1) p smem mods] obtain tf where
    tf: "get_path res [Key ''endpoints'', Index i, Key s] = Some (JObj tf)"
      "validate_children e \<lparr> allowUnknown = True \<rparr> None ch f = (tf, [])"
    by blast
  from child_default[OF tf(2) dist mem k c(1)] c(2) tf(1) show ?thesis
    by (auto simp: get_path_Key get_path_Index)
qed

subsection \<open>Two configurations that differ in one field\<close>

text \<open>
  When an object passes, and a second object has the same properties except for one key on
  which the child schema fails, the second object fails with that child's error.
\<close>

lemma children_differ_at:
  assumes "distinct (map fst ch)"
    and "(k, c) \<in> set ch"
    and "validate_children e opts ferr ch pa = (ta, [])"
    and "\<forall>k'. k' \<noteq> k \<longrightarrow> get_prop pa k' = get_prop pb k'"
    and "rerrors (validate e c opts k (get_prop pb k)) \<noteq> []"
  shows "snd (validate_children e opts ferr ch pb) =
           [Item k ferr (Object_child k) (rerrors (validate e c opts k (get_prop pb k)))]"
proof -
  have "\<forall>(k', c') \<in> set ch. k' \<noteq> k \<longrightarrow> rerrors (validate e c' opts k' (get_prop pb k')) = []"
    using validate_children_ok[OF assms(1,3)] assms(4) by fastforce
  from validate_children_first_failure[OF assms(1,2,5) this] show ?thesis .
qed

lemma items_differ_at:
  assumes "checkItems e opts ferr key True (Some inc) 0 ea = (ys, [])"
    and "i < length eb"
    and "length ea = length eb"
    and "\<forall>j<i. ea ! j = eb ! j"
    and "rerrors (validate e inc opts (show_nat i) (Some (eb ! i))) \<noteq> []"
  shows "snd (checkItems e opts ferr key True (Some inc) 0 eb) =
           [Item key ferr (Array_includesOne i)
              (rerrors (validate e inc opts (show_nat i) (Some (eb ! i))))]"
proof -
  have "\<forall>j<i. rerrors (validate e inc opts (if True then show_nat (0 + j) else key) (Some (eb ! j))) = []"
  proof (intro allI impI)
    fix j assume j: "j < i"
    then have "j < length ea" using assms(2,3) by simp
    with checkItems_ok[OF assms(1)]
    have "rerrors (validate e inc opts (if True then show_nat (0 + j) else key) (Some (ea ! j))) = []"
      by blast
    with assms(4) j
    show "rerrors (validate e inc opts (if True then show_nat (0 + j) else key) (Some (eb ! j))) = []"
      by simp
  qed
  from checkItems_first_failure[OF assms(2) this] assms(5) show ?thesis by simp
qed

lemma differ_at_endpoint_field:
  assumes acc: "Validate e (Some (JObj pa)) = Inr out"
    and top: "\<forall>k'. k' \<noteq> ''endpoints'' \<longrightarrow> get_prop pa k' = get_prop pb k'"
    and ea: "get_prop pa ''endpoints'' = Some (JArr ea)"
    and eb: "get_prop pb ''endpoints'' = Some (JArr eb)"
    and len: "length ea = length eb" "i < length eb"
    and before: "\<forall>j<i. ea ! j = eb ! j"
    and xa: "ea ! i = JObj xa" and xb: "eb ! i = JObj xb"
    and mid: "\<forall>k'. k' \<noteq> s \<longrightarrow> get_prop xa k' = get_prop xb k'"
    and fa: "get_prop xa s = Some (JObj fa)" and fb: "get_prop xb s = Some (JObj fb)"
    and low: "\<forall>k'. k' \<noteq> k \<longrightarrow> get_prop fa k' = get_prop fb k'"
    and smem: "(s, chain Joi_object (object_keys ch # mods)) \<in> set endpointKeys"
    and mods: "mods = [] \<or> mods = [required]"
    and dist: "distinct (map fst ch)"
    and mem: "(k, c) \<in> set ch"
    and fail: "rerrors (validate e c \<lparr> allowUnknown = True \<rparr> k (get_prop fb k)) \<noteq> []"
  shows "rerrors (validate e globalScheme defaults [] (Some (JObj pb))) =
           [Item ''endpoints'' None (Object_child ''endpoints'')
             [Item ''endpoints'' None (Array_includesOne i)
               [Item s None (Object_child s)
                 [Item k None (Object_child k)
                    (rerrors (validate e c \<lparr> allowUnknown = True \<rparr> k (get_prop fb k)))]]]]"
proof -
  let ?o = "\<lparr> allowUnknown = True \<rparr>"
  let ?E = "rerrors (validate e c ?o k (get_prop fb k))"
  from acc obtain t where t: "validate_children e ?o None globalKeys pa = (t, [])"
    by (rule accepted_global)
  from validate_children_ok[OF distinct_keys(1) t] globalKeys_mem ea
  have ra: "rerrors (validate e endpointsScheme ?o ''endpoints'' (Some (JArr ea))) = []"
    by fastforce
  obtain ys errs where ci: "checkItems e ?o None ''endpoints'' True (Some endpointScheme) 0 ea = (ys, errs)"
    by (cases "checkItems e ?o None ''endpoints'' True (Some endpointScheme) 0 ea")
  with ra have e0: "errs = []"
    by (auto simp: validate_endpoints split: if_splits)
  from checkItems_ok[OF ci[unfolded e0]] len xa
  have "rerrors (validate e endpointScheme ?o (show_nat i) (Some (JObj xa))) = []"
    by force
  then obtain ti where ti: "validate_children e ?o None endpointKeys xa = (ti, [])"
    by (auto simp: validate_endpoint prod_eq_iff)
  from accepted_sub[OF ti distinct_keys(2) smem mods fa] obtain tf where
    tf: "validate_children e ?o None ch fa = (tf, [])"
    by blast
  have 1: "rerrors (validate e (chain Joi_object (object_keys ch # mods)) ?o s (Some (JObj fb)))
             = [Item k None (Object_child k) ?E]"
    using children_differ_at[OF dist mem tf low fail]
    by (simp add: validate_keys_object[OF mods])
  have 2: "rerrors (validate e endpointScheme ?o (show_nat i) (Some (JObj xb)))
             = [Item s None (Object_child s) [Item k None (Object_child k) ?E]]"
    using children_differ_at[OF distinct_keys(2) smem ti mid] 1 fb
    by (simp add: validate_endpoint)
  have 3: "rerrors (validate e endpointsScheme ?o ''endpoints'' (Some (JArr eb)))
             = [Item ''endpoints'' None (Array_includesOne i)
                 [Item s None (Object_child s) [Item k None (Object_child k) ?E]]]"
    using items_differ_at[OF ci[unfolded e0] len(2,1) before] 2 xb
    by (auto simp: validate_endpoints split: prod.splits)
  show ?thesis
    using children_differ_at[OF distinct_keys(1) globalKeys_mem t top] 3 eb
    by (simp add: validate_global)
qed

subsection \<open>Assigning one field\<close>

lemma set_path_field:
  assumes "get_path cfg [Key a, Index i, Key s] = Some (JObj f)"
  shows "\<exists>props eps x. cfg = JObj props \<and> get_prop props a = Some (JArr eps)
    \<and> i < length eps \<and> eps ! i = JObj x \<and> get_prop x s = Some (JObj f)
    \<and> (\<forall>k v. set_path [Key a, Index i, Key s, Key k] v cfg =
           JObj (set_prop a (JArr (eps[i := JObj (set_prop s (JObj (set_prop k v f)) x)])) props))"
proof -
  from assms obtain props eps x where s: "cfg = JObj props" "get_prop props a = Some (JArr eps)"
    "i < length eps" "eps ! i = JObj x" "get_prop x s = Some (JObj f)"
    by (auto simp: get_path_Key get_path_Index)
  then have "set_path [Key a, Index i, Key s, Key k] v cfg =
           JObj (set_prop a (JArr (eps[i := JObj (set_prop s (JObj (set_prop k v f)) x)])) props)" for k v
    by simp
  with s show ?thesis by blast
qed

text \<open>
  A configuration and the same configuration with one field of \<open>endpoints[i].s\<close> assigned:
  when one of the two is accepted and the field fails on the other, the other is rejected
  with the error of the field.
\<close>

lemma nested_field_failure:
  assumes sa: "get_path a [Key ''endpoints'', Index i, Key s] = Some (JObj fa)"
    and sb: "get_path b [Key ''endpoints'', Index i, Key s] = Some (JObj fb)"
    and rel: "a = set_path [Key ''endpoints'', Index i, Key s, Key k] v b
              \<or> b = set_path [Key ''endpoints'', Index i, Key s, Key k] v a"
    and acc: "Validate e (Some a) = Inr out"
    and smem: "(s, chain Joi_object (object_keys ch # mods)) \<in> set endpointKeys"
    and mods: "mods = [] \<or> mods = [required]"
    and dist: "distinct (map fst ch)"
    and mem: "(k, c) \<in> set ch"
    and fail: "rerrors (validate e c \<lparr> allowUnknown = True \<rparr> k (get_prop fb k)) \<noteq> []"
  shows "rerrors (validate e globalScheme defaults [] (Some b)) =
           [Item ''endpoints'' None (Object_child ''endpoints'')
             [Item ''endpoints'' None (Array_includesOne i)
               [Item s None (Object_child s)
                 [Item k None (Object_child k)
                    (rerrors (validate e c \<lparr> allowUnknown = True \<rparr> k (get_prop fb k)))]]]]"
proof -
  from sa obtain pa ea xa where a: "a = JObj pa" "get_prop pa ''endpoints'' = Some (JArr ea)"
    "i < length ea" "ea ! i = JObj xa" "get_prop xa s = Some (JObj fa)"
    and seta: "\<forall>k v. set_path [Key ''endpoints'', Index i, Key s, Key k] v a =
           JObj (set_prop ''endpoints'' (JArr (ea[i := JObj (set_prop s (JObj (set_prop k v fa)) xa)])) pa)"
    using set_path_field by blast
  from sb obtain pb eb xb where b: "b = JObj pb" "get_prop pb ''endpoints'' = Some (JArr eb)"
    "i < length eb" "eb ! i = JObj xb" "get_prop xb s = Some (JObj fb)"
    and setb: "\<forall>k v. set_path [Key ''endpoints'', Index i, Key s, Key k] v b =
           JObj (set_prop ''endpoints'' (JArr (eb[i := JObj (set_prop s (JObj (set_prop k v fb)) xb)])) pb)"
    using set_path_field by blast
  have top: "\<forall>k'. k' \<noteq> ''endpoints'' \<longrightarrow> get_prop pa k' = get_prop pb k'"
    using rel a(1) b(1) seta[rule_format, of k v] setb[rule_format, of k v] by (auto simp: get_set_prop)
  have arr: "ea = eb[i := JObj (set_prop s (JObj (set_prop k v fb)) xb)]
             \<or> eb = ea[i := JObj (set_prop s (JObj (set_prop k v fa)) xa)]"
    using rel a(1,2) b(1,2) seta[rule_format, of k v] setb[rule_format, of k v] by (auto simp: get_set_prop)
  have len: "length ea = length eb" using arr by auto
  have before: "\<forall>j<i. ea ! j = eb ! j" using arr by auto
  have obj: "xa = set_prop s (JObj (set_prop k v fb)) xb \<or> xb = set_prop s (JObj (set_prop k v fa)) xa"
    using arr a(3,4) b(3,4) by auto
  have mid: "\<forall>k'. k' \<noteq> s \<longrightarrow> get_prop xa k' = get_prop xb k'"
    using obj by (auto simp: get_set_prop)
  have "fa = set_prop k v fb \<or> fb = set_prop k v fa"
    using obj a(5) b(5) by (auto simp: get_set_prop)
  then have low: "\<forall>k'. k' \<noteq> k \<longrightarrow> get_prop fa k' = get_prop fb k'"
    by (auto simp: get_set_prop)
  from differ_at_endpoint_field[OF acc[unfolded a(1)] top a(2) b(2) len b(3) before a(4) b(4) mid
      a(5) b(5) low smem mods dist mem fail]
  show ?thesis by (simp add: b(1))
qed

subsection \<open>The fields with a message of their own\<close>

lemma name_field:
  fixes msg :: string
  defines "c \<equiv> chain Joi_string [string_min 2, string_max 50, required, with_error msg]"
  shows "(\<exists>s. item = Some (JStr s) \<and> 2 \<le> length s \<and> length s \<le> 50)
         \<or> (\<exists>t. rerrors (validate e c opts k item) = [Item k (Some msg) t []])"
  unfolding c_def
  by (cases item)
     (auto simp: validate_def finish_def createError_def builders Let_def
           split: json.splits option.splits)

lemma functionName_field:
  fixes msg :: string
  defines "c \<equiv> chain Joi_string [required, with_error msg]"
  shows "(\<exists>s. item = Some (JStr s) \<and> s \<noteq> [])
         \<or> (\<exists>t. rerrors (validate e c opts k item) = [Item k (Some msg) t []])"
  unfolding c_def
  by (cases item)
     (auto simp: validate_def finish_def createError_def builders Let_def
           split: json.splits option.splits)

lemma maxRequestNum_field:
  "validate e (chain Joi_number [number_integer, number_min 1, number_max 99999999, optional,
       with_default (JNum (- 1))]) opts k None = \<lparr> rvalue = Some (JNum (- 1)), rerrors = [] \<rparr>"
  "validate e (chain Joi_number [number_integer, number_min 1, number_max 99999999, optional,
       with_default (JNum (- 1))]) opts k (Some (JNum (- 1)))
     = \<lparr> rvalue = Some (JNum (- 1)), rerrors = [Item k None (Number_min 1) []] \<rparr>"
proof -
  have fl: "\<exists>n. (- 1 :: rat) = rat_of_int n"
    by (rule exI[of _ "- 1"]) simp
  show "validate e (chain Joi_number [number_integer, number_min 1, number_max 99999999, optional,
       with_default (JNum (- 1))]) opts k None = \<lparr> rvalue = Some (JNum (- 1)), rerrors = [] \<rparr>"
    by (simp add: validate_def finish_def createError_def builders Let_def)
  show "validate e (chain Joi_number [number_integer, number_min 1, number_max 99999999, optional,
       with_default (JNum (- 1))]) opts k (Some (JNum (- 1)))
     = \<lparr> rvalue = Some (JNum (- 1)), rerrors = [Item k None (Number_min 1) []] \<rparr>"
    using fl
    by (simp add: validate_def finish_def createError_def builders Let_def MAX_SAFE_INTEGER_def)
qed

subsection \<open>The error of one field, raised for the configuration\<close>

lemma get_path_set_path:
  assumes "get_path cfg [Key a, Index i, Key s] = Some (JObj f)"
  shows "get_path (set_path [Key a, Index i, Key s, Key k] v cfg) [Key a, Index i, Key s]
           = Some (JObj (set_prop k v f))"
  using set_path_field[OF assms] by (auto simp: get_set_prop)

subsection \<open>A default outside the bounds of its field\<close>

text \<open>
  C9. The default of \<open>usagePlan.maxRequestNum\<close> is not held against the bounds of the field.
  When an accepted configuration omits \<open>maxRequestNum\<close> in the \<open>usagePlan\<close> of an endpoint,
  the returned object has \<open>-1\<close> there; the same configuration with \<open>maxRequestNum\<close> set to
  \<open>-1\<close> in that \<open>usagePlan\<close> is rejected, with the message of the minimum 1.
\<close>

theorem maxRequestNum_default_bypasses_min:
  \<open>omitted cfg [Key ''endpoints'', Index i, Key ''usagePlan''] ''maxRequestNum''
     \<and> Validate e (Some cfg) = Inr out
   \<longrightarrow>
     (\<exists>res. out = Some res \<and>
        get_path res [Key ''endpoints'', Index i, Key ''usagePlan'', Key ''maxRequestNum'']
          = Some (JNum (- 1)))
     \<and> Validate e
         (Some (set_path [Key ''endpoints'', Index i, Key ''usagePlan'', Key ''maxRequestNum'']
                  (JNum (- 1)) cfg))
       = Inl (ValidationError
           (''child "endpoints" fails because ["endpoints" at position '' @ show_nat i
            @ '' fails because [child "usagePlan" fails because [child "maxRequestNum" ''
            @ ''fails because ["maxRequestNum" must be larger than or equal to 1]]]]''))\<close>
proof (intro impI conjI)
  assume a: "omitted cfg [Key ''endpoints'', Index i, Key ''usagePlan''] ''maxRequestNum''
     \<and> Validate e (Some cfg) = Inr out"
  then obtain f where f: "get_path cfg [Key ''endpoints'', Index i, Key ''usagePlan''] = Some (JObj f)"
    and k: "get_prop f ''maxRequestNum'' = None"
    by (auto simp: omitted_iff)
  from a accepted_result obtain res where res: "out = Some res" by blast
  from a have acc: "Validate e (Some cfg) = Inr (Some res)" by (simp add: res)
  have "get_path res [Key ''endpoints'', Index i, Key ''usagePlan'', Key ''maxRequestNum'']
          = Some (JNum (- 1))"
    using a by (intro accepted_sub_default[OF acc _ endpointKeys_mem(2) _ distinct_keys(4) key_facts(7)])
       (simp_all add: builders)
  with res show "\<exists>res. out = Some res \<and>
        get_path res [Key ''endpoints'', Index i, Key ''usagePlan'', Key ''maxRequestNum'']
          = Some (JNum (- 1))"
    by blast
  let ?b = "set_path [Key ''endpoints'', Index i, Key ''usagePlan'', Key ''maxRequestNum'']
                  (JNum (- 1)) cfg"
  have "rerrors (validate e globalScheme defaults [] (Some ?b)) =
          [Item ''endpoints'' None (Object_child ''endpoints'')
             [Item ''endpoints'' None (Array_includesOne i)
               [Item ''usagePlan'' None (Object_child ''usagePlan'')
                 [Item ''maxRequestNum'' None (Object_child ''maxRequestNum'')
                    [Item ''maxRequestNum'' None (Number_min 1) []]]]]]"
    using nested_field_failure[where v = "JNum (- 1)", OF f get_path_set_path[OF f] _ acc
        endpointKeys_mem(2) _ distinct_keys(4) key_facts(7)]
    by (simp add: get_set_prop maxRequestNum_field)
  then show \<open>Validate e (Some ?b)
       = Inl (ValidationError
           (''child "endpoints" fails because ["endpoints" at position '' @ show_nat i
            @ '' fails because [child "usagePlan" fails because [child "maxRequestNum" ''
            @ ''fails because ["maxRequestNum" must be larger than or equal to 1]]]]''))\<close>
    by (simp add: Validate_unfold process_def show_int_def show_nat.simps[of "Suc 0"])
qed

theorem maxRequestNum_default_bypasses_min_witness:
  \<open>omitted
     (JObj [(''serviceName'', JStr ''svc''),
            (''endpoints'',
               JArr [JObj [(''path'', JStr ''/''), (''method'', JStr ''GET''),
                           (''function'', JObj [(''functionName'', JStr ''f'')]),
                           (''usagePlan'', JObj [(''usagePlanName'', JStr ''pl'')])]])])
     [Key ''endpoints'', Index 0, Key ''usagePlan''] ''maxRequestNum''
   \<and> Validate \<lparr> JSON_parse = (\<lambda>_. None), toNumber = (\<lambda>_. NotANumber) \<rparr>
       (Some (JObj [(''serviceName'', JStr ''svc''),
                    (''endpoints'',
                       JArr [JObj [(''path'', JStr ''/''), (''method'', JStr ''GET''),
                                   (''function'', JObj [(''functionName'', JStr ''f'')]),
                                   (''usagePlan'', JObj [(''usagePlanName'', JStr ''pl'')])]])]))
     = Inr (Some (JObj [(''serviceName'', JStr ''svc''),
                    (''endpoints'',
                       JArr [JObj [(''path'', JStr ''/''), (''method'', JStr ''GET''),
                                   (''function'',
                                      JObj [(''functionName'', JStr ''f''),
                                            (''isIntegratedResponse'', JBool False),
                                            (''functionQualifier'', JStr ''$LATEST'')]),
                                   (''usagePlan'',
                                      JObj [(''usagePlanName'', JStr ''pl''),
                                            (''maxRequestNum'', JNum (- 1)),
                                            (''maxRequestNumPreSec'', JNum 1000)]),
                                   (''enableCORS'', JBool False)]]),
                    (''region'', JStr ''ap-guangzhou''),
                    (''protocol'', JStr ''http''),
                    (''environment'', JStr ''release'')]))
   \<and> Validate \<lparr> JSON_parse = (\<lambda>_. None), toNumber = (\<lambda>_. NotANumber) \<rparr>
       (Some (JObj [(''serviceName'', JStr ''svc''),
                    (''endpoints'',
                       JArr [JObj [(''path'', JStr ''/''), (''method'', JStr ''GET''),
                                   (''function'', JObj [(''functionName'', JStr ''f'')]),
                                   (''usagePlan'',
                                      JObj [(''usagePlanName'', JStr ''pl''),
                                            (''maxRequestNum'', JNum (- 1))])]])]))
     = Inl (ValidationError
         (''child "endpoints" fails because ["endpoints" at position 0 fails because ''
          @ ''[child "usagePlan" fails because [child "maxRequestNum" fails because ''
          @ ''["maxRequestNum" must be larger than or equal to 1]]]]''))\<close>
proof -
  let ?e = "\<lparr> JSON_parse = (\<lambda>_. None), toNumber = (\<lambda>_. NotANumber) \<rparr>"
  let ?cfg = "JObj [(''serviceName'', JStr ''svc''),
            (''endpoints'',
               JArr [JObj [(''path'', JStr ''/''), (''method'', JStr ''GET''),
                           (''function'', JObj [(''functionName'', JStr ''f'')]),
                           (''usagePlan'', JObj [(''usagePlanName'', JStr ''pl'')])]])]"
  let ?res = "JObj [(''serviceName'', JStr ''svc''),
                    (''endpoints'',
                       JArr [JObj [(''path'', JStr ''/''), (''method'', JStr ''GET''),
                                   (''function'',
                                      JObj [(''functionName'', JStr ''f''),
                                            (''isIntegratedResponse'', JBool False),
                                            (''functionQualifier'', JStr ''$LATEST'')]),
                                   (''usagePlan'',
                                      JObj [(''usagePlanName'', JStr ''pl''),
                                            (''maxRequestNum'', JNum (- 1)),
                                            (''maxRequestNumPreSec'', JNum 1000)]),
                                   (''enableCORS'', JBool False)]]),
                    (''region'', JStr ''ap-guangzhou''),
                    (''protocol'', JStr ''http''),
                    (''environment'', JStr ''release'')]"
  have om: "omitted ?cfg [Key ''endpoints'', Index 0, Key ''usagePlan''] ''maxRequestNum''"
    by (simp add: omitted_def get_prop_def)
  have acc: "Validate ?e (Some ?cfg) = Inr (Some ?res)"
    by code_simp
  have sp: "set_path [Key ''endpoints'', Index 0, Key ''usagePlan'', Key ''maxRequestNum'']
              (JNum (- 1)) ?cfg
            = JObj [(''serviceName'', JStr ''svc''),
                    (''endpoints'',
                       JArr [JObj [(''path'', JStr ''/''), (''method'', JStr ''GET''),
                                   (''function'', JObj [(''functionName'', JStr ''f'')]),
                                   (''usagePlan'',
                                      JObj [(''usagePlanName'', JStr ''pl''),
                                            (''maxRequestNum'', JNum (- 1))])]])]"
    by (simp add: get_prop_def)
  from maxRequestNum_default_bypasses_min[of ?cfg 0 ?e "Some ?res"] om acc
  show ?thesis
    by (simp add: sp show_nat.simps[of 0] get_prop_def)
qed

subsection \<open>The first field that fails\<close>

text \<open>
  When the keys before \<open>k\<close> pass and the child of \<open>k\<close> fails, the error of the object is the
  error of that child, whatever the keys after \<open>k\<close> hold.
\<close>

lemma validate_children_prefix_failure:
  assumes "distinct (map fst ch)"
    and "(k, c) \<in> set ch"
    and "rerrors (validate e c opts k (get_prop target k)) \<noteq> []"
    and "\<forall>(k', c') \<in> set (takeWhile (\<lambda>kc. fst kc \<noteq> k) ch).
           rerrors (validate e c' opts k' (get_prop target k')) = []"
  shows "snd (validate_children e opts ferr ch target) =
           [Item k ferr (Object_child k) (rerrors (validate e c opts k (get_prop target k)))]"
  using assms
proof (induction ch arbitrary: target)
  case Nil
  then show ?case by simp
next
  case (Cons a ch)
  obtain k0 c0 where a: "a = (k0, c0)" by (cases a)
  let ?r = "validate e c0 opts k0 (get_prop target k0)"
  let ?t = "(case rvalue ?r of
                None \<Rightarrow> (if get_prop target k0 \<noteq> None then delete_prop k0 target else target)
              | Some v \<Rightarrow> set_prop k0 v target)"
  from Cons.prems(1) have d: "distinct (map fst ch)" and nk: "k0 \<notin> fst ` set ch"
    by (auto simp: a)
  show ?case
  proof (cases "k0 = k")
    case True
    have "c0 = c"
    proof (rule ccontr)
      assume "c0 \<noteq> c"
      then have "(k, c) \<in> set ch" using Cons.prems(2) a True by auto
      then show False using nk True by force
    qed
    then show ?thesis using Cons.prems(3) True by (simp add: a Let_def)
  next
    case False
    then have m: "(k, c) \<in> set ch" using Cons.prems(2) a by auto
    from False have tw: "takeWhile (\<lambda>kc. fst kc \<noteq> k) (a # ch) = a # takeWhile (\<lambda>kc. fst kc \<noteq> k) ch"
      by (simp add: a)
    from Cons.prems(4) have r0: "rerrors ?r = []"
      unfolding tw by (simp add: a)
    have same: "get_prop ?t k' = get_prop target k'" if "k' \<noteq> k0" for k'
      using that by (auto simp: get_set_prop get_delete_prop split: option.splits)
    have p3: "rerrors (validate e c opts k (get_prop ?t k)) \<noteq> []"
      using Cons.prems(3) same[of k] False by simp
    have p4: "\<forall>(k', c') \<in> set (takeWhile (\<lambda>kc. fst kc \<noteq> k) ch).
                rerrors (validate e c' opts k' (get_prop ?t k')) = []"
    proof (clarify)
      fix k' c' assume kc: "(k', c') \<in> set (takeWhile (\<lambda>kc. fst kc \<noteq> k) ch)"
      then have "(k', c') \<in> set ch" by (rule set_takeWhileD[THEN conjunct1])
      then have "k' \<noteq> k0" using nk by force
      moreover from kc Cons.prems(4) have "rerrors (validate e c' opts k' (get_prop target k')) = []"
        unfolding tw by auto
      ultimately show "rerrors (validate e c' opts k' (get_prop ?t k')) = []"
        using same[of k'] by simp
    qed
    from Cons.IH[OF d m p3 p4] r0 same[of k] False show ?thesis
      by (simp add: a Let_def)
  qed
qed

lemma earlier_pass_iff:
  "earlier_pass e keys k ob \<longleftrightarrow>
     (\<forall>(k', c') \<in> set (takeWhile (\<lambda>kc. fst kc \<noteq> k) keys).
        rerrors (validate e c' \<lparr> allowUnknown = True \<rparr> k' (get_prop ob k')) = [])"
  by (simp add: earlier_pass_def passes_def list_all_iff)

lemma items_pass_iff:
  "items_pass e s xs \<longleftrightarrow>
     (\<forall>j<length xs. rerrors (validate e s \<lparr> allowUnknown = True \<rparr> (show_nat j) (Some (xs ! j))) = [])"
proof -
  have "set (enumerate 0 xs) = {(j, xs ! j) | j. j < length xs}"
    by (auto simp: in_set_enumerate_eq)
  then show ?thesis
    by (auto simp: items_pass_def passes_def list_all_iff)
qed

lemma reached_top_failure:
  assumes "(k, c) \<in> set globalKeys"
    and "earlier_pass e globalKeys k props"
    and "rerrors (validate e c \<lparr> allowUnknown = True \<rparr> k (get_prop props k)) \<noteq> []"
  shows "rerrors (validate e globalScheme defaults [] (Some (JObj props))) =
           [Item k None (Object_child k)
              (rerrors (validate e c \<lparr> allowUnknown = True \<rparr> k (get_prop props k)))]"
  using validate_children_prefix_failure[OF distinct_keys(1) assms(1,3) assms(2)[unfolded earlier_pass_iff],
          of None]
  by (simp add: validate_global)

lemma field_reached_D:
  assumes "field_reached e cfg i s keys k"
  shows "\<exists>props eps x f. cfg = JObj props \<and> get_prop props ''endpoints'' = Some (JArr eps)
           \<and> i < length eps \<and> eps ! i = JObj x \<and> get_prop x s = Some (JObj f)
           \<and> earlier_pass e globalKeys ''endpoints'' props
           \<and> items_pass e endpointScheme (take i eps)
           \<and> earlier_pass e endpointKeys s x
           \<and> earlier_pass e keys k f"
proof -
  obtain props where 1: "cfg = JObj props"
    using assms unfolding field_reached_def by (cases cfg) simp_all
  note r = assms[unfolded field_reached_def 1, simplified]
  obtain v where g: "get_prop props ''endpoints'' = Some v"
    using r by (cases "get_prop props ''endpoints''") simp_all
  obtain eps where v: "v = JArr eps"
    using r unfolding g by (cases v) simp_all
  note r' = r[unfolded g v, simplified]
  from r' have i: "i < length eps"
    by simp
  then have dr: "drop i eps = eps ! i # drop (Suc i) eps"
    by (simp add: Cons_nth_drop_Suc)
  note r'' = r'[unfolded dr, simplified]
  obtain x where 3: "eps ! i = JObj x"
    using r'' by (cases "eps ! i") simp_all
  note r3 = r''[unfolded 3, simplified]
  obtain w where gs: "get_prop x s = Some w"
    using r3 by (cases "get_prop x s") simp_all
  obtain f where w: "w = JObj f"
    using r3 unfolding gs by (cases w) simp_all
  note r4 = r3[unfolded gs w, simplified]
  from 1 g v i 3 gs w r4 show ?thesis
    by simp
qed

lemma reached_nested_failure:
  assumes reach: "field_reached e cfg i s ch k"
    and f: "get_path cfg [Key ''endpoints'', Index i, Key s] = Some (JObj f)"
    and smem: "(s, chain Joi_object (object_keys ch # mods)) \<in> set endpointKeys"
    and mods: "mods = [] \<or> mods = [required]"
    and dist: "distinct (map fst ch)"
    and mem: "(k, c) \<in> set ch"
    and fail: "rerrors (validate e c \<lparr> allowUnknown = True \<rparr> k (get_prop f k)) \<noteq> []"
  shows "rerrors (validate e globalScheme defaults [] (Some cfg)) =
           [Item ''endpoints'' None (Object_child ''endpoints'')
             [Item ''endpoints'' None (Array_includesOne i)
               [Item s None (Object_child s)
                 [Item k None (Object_child k)
                    (rerrors (validate e c \<lparr> allowUnknown = True \<rparr> k (get_prop f k)))]]]]"
proof -
  let ?o = "\<lparr> allowUnknown = True \<rparr>"
  let ?E = "rerrors (validate e c ?o k (get_prop f k))"
  from field_reached_D[OF reach] obtain props eps x f' where
    s: "cfg = JObj props" "get_prop props ''endpoints'' = Some (JArr eps)"
       "i < length eps" "eps ! i = JObj x" "get_prop x s = Some (JObj f')"
    and p: "earlier_pass e globalKeys ''endpoints'' props"
    and ip: "items_pass e endpointScheme (take i eps)"
    and q: "earlier_pass e endpointKeys s x"
    and r: "earlier_pass e ch k f'"
    by blast
  from f s have ff: "f' = f"
    by simp
  have 1: "rerrors (validate e (chain Joi_object (object_keys ch # mods)) ?o s (Some (JObj f)))
             = [Item k None (Object_child k) ?E]"
    using validate_children_prefix_failure[OF dist mem fail r[unfolded earlier_pass_iff ff], of None]
    by (simp add: validate_keys_object[OF mods])
  have 2: "rerrors (validate e endpointScheme ?o (show_nat i) (Some (JObj x)))
             = [Item s None (Object_child s) [Item k None (Object_child k) ?E]]"
    using validate_children_prefix_failure[OF distinct_keys(2) smem _ q[unfolded earlier_pass_iff], of None]
      1 s(5) ff
    by (simp add: validate_endpoint)
  have before: "\<forall>j<i. rerrors (validate e endpointScheme ?o
                   (if True then show_nat (0 + j) else ''endpoints'') (Some (eps ! j))) = []"
    using ip s(3) by (simp add: items_pass_iff)
  have 3: "rerrors (validate e endpointsScheme ?o ''endpoints'' (Some (JArr eps)))
             = [Item ''endpoints'' None (Array_includesOne i)
                 [Item s None (Object_child s) [Item k None (Object_child k) ?E]]]"
    using checkItems_first_failure[OF s(3) before, of None] 2 s(4)
    by (auto simp: validate_endpoints split: prod.splits)
  have 4: "rerrors (validate e globalScheme defaults [] (Some (JObj props))) =
           [Item ''endpoints'' None (Object_child ''endpoints'')
              (rerrors (validate e endpointsScheme ?o ''endpoints'' (get_prop props ''endpoints'')))]"
    by (rule reached_top_failure[OF globalKeys_mem p]) (simp add: s(2) 3)
  show ?thesis
    unfolding s(1) 4 s(2) 3 ..
qed

lemma reached_top_message:
  assumes "(k, c) \<in> set globalKeys"
    and "earlier_pass e globalKeys k props"
    and "rerrors (validate e c \<lparr> allowUnknown = True \<rparr> k (get_prop props k)) = [Item k (Some msg) t []]"
  shows "Validate e (Some (JObj props)) = Inl (Error msg)"
proof -
  have "rerrors (validate e globalScheme defaults [] (Some (JObj props))) =
          [Item k None (Object_child k) [Item k (Some msg) t []]]"
    using reached_top_failure[OF assms(1,2)] assms(3) by simp
  then show ?thesis
    by (intro Validate_Inl_override) simp
qed

lemma reached_nested_message:
  assumes "field_reached e cfg i s ch k"
    and "get_path cfg [Key ''endpoints'', Index i, Key s] = Some (JObj f)"
    and "(s, chain Joi_object (object_keys ch # mods)) \<in> set endpointKeys"
    and "mods = [] \<or> mods = [required]"
    and "distinct (map fst ch)"
    and "(k, c) \<in> set ch"
    and "rerrors (validate e c \<lparr> allowUnknown = True \<rparr> k (get_prop f k)) = [Item k (Some msg) t []]"
  shows "Validate e (Some cfg) = Inl (Error msg)"
proof -
  have "rerrors (validate e globalScheme defaults [] (Some cfg)) =
          [Item ''endpoints'' None (Object_child ''endpoints'')
             [Item ''endpoints'' None (Array_includesOne i)
               [Item s None (Object_child s)
                 [Item k None (Object_child k) [Item k (Some msg) t []]]]]]"
    using reached_nested_failure[OF assms(1-6)] assms(7) by simp
  then show ?thesis
    by (intro Validate_Inl_override) simp
qed

lemma reached_top_iff:
  "top_field_reached e (JObj props) k \<longleftrightarrow> earlier_pass e globalKeys k props"
  by (simp add: top_field_reached_def)

text \<open>
  What it takes to arrive at \<open>serviceName\<close>: \<open>region\<close> and \<open>serviceId\<close> are absent or
  non-empty strings, and \<open>protocol\<close> is absent or one of its three words.
\<close>

lemma serviceName_reached_iff:
  "top_field_reached e (JObj props) ''serviceName'' \<longleftrightarrow>
     optional_field props ''region'' (is_string 1)
     \<and> optional_field props ''serviceId'' (is_string 1)
     \<and> optional_field props ''protocol'' (is_one_of [''http'', ''https'', ''http&https''])"
proof -
  have 1: "passes e (chain Joi_string [optional, with_default d]) k item
           \<longleftrightarrow> (case item of None \<Rightarrow> True | Some v \<Rightarrow> is_string 1 v)" for d k item
    by (cases item)
       (auto simp: passes_def is_string_def validate_def finish_def createError_def builders Let_def
               Suc_le_eq
             split: json.splits)
  have 2: "passes e (chain Joi_string [optional]) k item
           \<longleftrightarrow> (case item of None \<Rightarrow> True | Some v \<Rightarrow> is_string 1 v)" for k item
    by (cases item)
       (auto simp: passes_def is_string_def validate_def finish_def createError_def builders Let_def
               Suc_le_eq
             split: json.splits)
  have 3: "passes e (chain Joi_string [regex (Anchored_alternatives ws), optional, with_default d]) k item
           \<longleftrightarrow> (case item of None \<Rightarrow> True | Some v \<Rightarrow> is_one_of ws v \<and> v \<noteq> JStr [])" for ws d k item
    by (cases item)
       (auto simp: passes_def is_one_of_def validate_def finish_def createError_def builders Let_def
             split: json.splits)
  have 4: "is_one_of [''http'', ''https'', ''http&https''] v \<and> v \<noteq> JStr []
           \<longleftrightarrow> is_one_of [''http'', ''https'', ''http&https''] v" for v
    by (auto simp: is_one_of_def split: json.splits)
  show ?thesis
    unfolding reached_top_iff earlier_pass_def globalKeys_def
    using 4 by (simp add: 1 2 3 optional_field_def split: option.splits)
qed

subsection \<open>The message of a missing field\<close>

text \<open>
  C8, as the source has it. The fields are validated in the order of the schema and the
  first failure is the one that is raised. A configuration without \<open>serviceName\<close> on which
  the fields validated before \<open>serviceName\<close> pass (\<open>region\<close>, \<open>serviceId\<close> and \<open>protocol\<close>)
  is rejected with the error whose message is \<open>"serviceName" is required\<close>, whatever its
  other fields hold; so are the empty configuration and a call without a configuration. A
  configuration in which the \<open>function\<close> object of the endpoint at position \<open>i\<close> has no
  \<open>functionName\<close>, and on which the validation arrives at that field, is rejected with the
  error whose message is \<open>"endpoints.function.functionName" is required\<close>.
\<close>

theorem missing_required_field_message:
  \<open>(omitted cfg [] ''serviceName'' \<and> top_field_reached e cfg ''serviceName''
     \<longrightarrow> Validate e (Some cfg) = Inl (Error ''"serviceName" is required''))
   \<and> Validate e (Some (JObj [])) = Inl (Error ''"serviceName" is required'')
   \<and> Validate e None = Inl (Error ''"serviceName" is required'')
   \<and> (omitted cfg [Key ''endpoints'', Index i, Key ''function''] ''functionName''
      \<and> field_reached e cfg i ''function'' functionKeys ''functionName''
     \<longrightarrow> Validate e (Some cfg) = Inl (Error ''"endpoints.function.functionName" is required''))\<close>
proof -
  let ?c = \<open>chain Joi_string [string_min 2, string_max 50, required, with_error ''"serviceName" is required'']\<close>
  have mem: "(''serviceName'', ?c) \<in> set globalKeys"
    by (simp add: globalKeys_def)
  have top: \<open>Validate e (Some (JObj props)) = Inl (Error ''"serviceName" is required'')\<close>
    if k: "get_prop props ''serviceName'' = None"
      and r: "earlier_pass e globalKeys ''serviceName'' props" for props
  proof -
    from name_field[of None e _ "\<lparr> allowUnknown = True \<rparr>" "''serviceName''"] k
    obtain t where \<open>rerrors (validate e ?c \<lparr> allowUnknown = True \<rparr> ''serviceName''
        (get_prop props ''serviceName'')) = [Item ''serviceName'' (Some ''"serviceName" is required'') t []]\<close>
      by auto
    from reached_top_message[OF mem r this] show ?thesis .
  qed
  have 1: \<open>omitted cfg [] ''serviceName'' \<and> top_field_reached e cfg ''serviceName''
     \<longrightarrow> Validate e (Some cfg) = Inl (Error ''"serviceName" is required'')\<close>
  proof
    assume a: "omitted cfg [] ''serviceName'' \<and> top_field_reached e cfg ''serviceName''"
    then obtain props where cfg: "cfg = JObj props" and k: "get_prop props ''serviceName'' = None"
      by (auto simp: omitted_iff)
    from a have "earlier_pass e globalKeys ''serviceName'' props"
      by (simp add: cfg reached_top_iff)
    from top[OF k this] show \<open>Validate e (Some cfg) = Inl (Error ''"serviceName" is required'')\<close>
      by (simp add: cfg)
  qed
  have e0: "earlier_pass e globalKeys ''serviceName'' []"
    unfolding reached_top_iff[symmetric] serviceName_reached_iff
    by (simp add: optional_field_def get_prop_def)
  have 2: \<open>Validate e (Some (JObj [])) = Inl (Error ''"serviceName" is required'')\<close>
    by (rule top[OF _ e0]) (simp add: get_prop_def)
  have 3: \<open>Validate e None = Inl (Error ''"serviceName" is required'')\<close>
    using 2 by (simp add: Validate_def)
  have 4: \<open>omitted cfg [Key ''endpoints'', Index i, Key ''function''] ''functionName''
      \<and> field_reached e cfg i ''function'' functionKeys ''functionName''
     \<longrightarrow> Validate e (Some cfg) = Inl (Error ''"endpoints.function.functionName" is required'')\<close>
  proof
    assume a: "omitted cfg [Key ''endpoints'', Index i, Key ''function''] ''functionName''
      \<and> field_reached e cfg i ''function'' functionKeys ''functionName''"
    then obtain f where f: "get_path cfg [Key ''endpoints'', Index i, Key ''function''] = Some (JObj f)"
      and k: "get_prop f ''functionName'' = None"
      by (auto simp: omitted_iff)
    let ?c = \<open>chain Joi_string [required, with_error ''"endpoints.function.functionName" is required'']\<close>
    have mem: "(''functionName'', ?c) \<in> set functionKeys"
      by (simp add: functionKeys_def)
    from a have reach: "field_reached e cfg i ''function'' functionKeys ''functionName''"
      by simp
    from functionName_field[of None e _ "\<lparr> allowUnknown = True \<rparr>" "''functionName''"] k
    obtain t where \<open>rerrors (validate e ?c \<lparr> allowUnknown = True \<rparr> ''functionName''
        (get_prop f ''functionName''))
        = [Item ''functionName'' (Some ''"endpoints.function.functionName" is required'') t []]\<close>
      by auto
    from reached_nested_message[OF reach f endpointKeys_mem(1) _ distinct_keys(3) mem this]
    show \<open>Validate e (Some cfg) = Inl (Error ''"endpoints.function.functionName" is required'')\<close>
      by simp
  qed
  from 1 2 3 4 show ?thesis
    by (intro conjI)
qed

theorem missing_required_field_message_witness:
  \<open>omitted (JObj [(''region'', JStr ''ap-shanghai''), (''description'', JNum 5)]) [] ''serviceName''
   \<and> top_field_reached \<lparr> JSON_parse = (\<lambda>_. None), toNumber = (\<lambda>_. NotANumber) \<rparr>
        (JObj [(''region'', JStr ''ap-shanghai''), (''description'', JNum 5)]) ''serviceName''
   \<and> Validate \<lparr> JSON_parse = (\<lambda>_. None), toNumber = (\<lambda>_. NotANumber) \<rparr>
        (Some (JObj [(''region'', JStr ''ap-shanghai''), (''description'', JNum 5)]))
      = Inl (Error ''"serviceName" is required'')
   \<and> Validate \<lparr> JSON_parse = (\<lambda>_. None), toNumber = (\<lambda>_. NotANumber) \<rparr> (Some (JObj []))
      = Inl (Error ''"serviceName" is required'')
   \<and> Validate \<lparr> JSON_parse = (\<lambda>_. None), toNumber = (\<lambda>_. NotANumber) \<rparr> None
      = Inl (Error ''"serviceName" is required'')
   \<and> omitted
        (JObj [(''serviceName'', JStr ''svc''),
               (''endpoints'',
                  JArr [JObj [(''path'', JStr ''/''), (''method'', JStr ''GET''),
                              (''function'', JObj []), (''usagePlan'', JNum 7)]])])
        [Key ''endpoints'', Index 0, Key ''function''] ''functionName''
   \<and> field_reached \<lparr> JSON_parse = (\<lambda>_. None), toNumber = (\<lambda>_. NotANumber) \<rparr>
        (JObj [(''serviceName'', JStr ''svc''),
               (''endpoints'',
                  JArr [JObj [(''path'', JStr ''/''), (''method'', JStr ''GET''),
                              (''function'', JObj []), (''usagePlan'', JNum 7)]])])
        0 ''function'' functionKeys ''functionName''
   \<and> Validate \<lparr> JSON_parse = (\<lambda>_. None), toNumber = (\<lambda>_. NotANumber) \<rparr>
        (Some (JObj [(''serviceName'', JStr ''svc''),
                     (''endpoints'',
                        JArr [JObj [(''path'', JStr ''/''), (''method'', JStr ''GET''),
                                    (''function'', JObj []), (''usagePlan'', JNum 7)]])]))
      = Inl (Error ''"endpoints.function.functionName" is required'')\<close>
proof -
  let ?e = "\<lparr> JSON_parse = (\<lambda>_. None), toNumber = (\<lambda>_. NotANumber) \<rparr>"
  let ?a = "JObj [(''region'', JStr ''ap-shanghai''), (''description'', JNum 5)]"
  let ?b = "JObj [(''serviceName'', JStr ''svc''),
               (''endpoints'',
                  JArr [JObj [(''path'', JStr ''/''), (''method'', JStr ''GET''),
                              (''function'', JObj []), (''usagePlan'', JNum 7)]])]"
  have oa: "omitted ?a [] ''serviceName''"
    by (simp add: omitted_def get_prop_def)
  have ra: "top_field_reached ?e ?a ''serviceName''"
    by code_simp
  have ob: "omitted ?b [Key ''endpoints'', Index 0, Key ''function''] ''functionName''"
    by (simp add: omitted_def get_prop_def)
  have rb: "field_reached ?e ?b 0 ''function'' functionKeys ''functionName''"
    by code_simp
  note t = missing_required_field_message[where e = ?e]
  from t[where cfg = ?a, THEN conjunct1] oa ra
  have 1: \<open>Validate ?e (Some ?a) = Inl (Error ''"serviceName" is required'')\<close>
    by blast
  note 2 = t[where cfg = ?a and i = 0, THEN conjunct2, THEN conjunct1]
  note 3 = t[where cfg = ?a and i = 0, THEN conjunct2, THEN conjunct2, THEN conjunct1]
  from t[where cfg = ?b and i = 0, THEN conjunct2, THEN conjunct2, THEN conjunct2] ob rb
  have 4: \<open>Validate ?e (Some ?b) = Inl (Error ''"endpoints.function.functionName" is required'')\<close>
    by blast
  from oa ra 1 2 3 ob rb 4 show ?thesis
    by (intro conjI)
qed

text \<open>
  C8, as the claim states it, fails when a field that is validated earlier is invalid: the
  error of that field is raised, and its message does not contain the text. Here \<open>region\<close>
  is a number in a configuration without \<open>serviceName\<close>, and \<open>method\<close> is not one of the
  allowed names in an endpoint whose \<open>function\<close> has no \<open>functionName\<close>.
\<close>

theorem missing_required_field_masked:
  \<open>omitted (JObj [(''region'', JNum 5)]) [] ''serviceName''
   \<and> Validate \<lparr> JSON_parse = (\<lambda>_. None), toNumber = (\<lambda>_. NotANumber) \<rparr>
        (Some (JObj [(''region'', JNum 5)]))
      = Inl (ValidationError ''child "region" fails because ["region" must be a string]'')
   \<and> \<not> sublist ''"serviceName" is required''
          ''child "region" fails because ["region" must be a string]''
   \<and> omitted
        (JObj [(''serviceName'', JStr ''svc''),
               (''endpoints'',
                  JArr [JObj [(''path'', JStr ''/''), (''method'', JStr ''FETCH''),
                              (''function'', JObj [])]])])
        [Key ''endpoints'', Index 0, Key ''function''] ''functionName''
   \<and> Validate \<lparr> JSON_parse = (\<lambda>_. None), toNumber = (\<lambda>_. NotANumber) \<rparr>
        (Some (JObj [(''serviceName'', JStr ''svc''),
                     (''endpoints'',
                        JArr [JObj [(''path'', JStr ''/''), (''method'', JStr ''FETCH''),
                                    (''function'', JObj [])]])]))
      = Inl (ValidationError
          (''child "endpoints" fails because ["endpoints" at position 0 fails because ''
           @ ''[child "method" fails because ["method" with value "FETCH" fails to match ''
           @ ''the required pattern: /^(GET|POST|PUT|DELETE|HEAD|ANY)$/]]]''))
   \<and> \<not> sublist ''"endpoints.function.functionName" is required''
          (''child "endpoints" fails because ["endpoints" at position 0 fails because ''
           @ ''[child "method" fails because ["method" with value "FETCH" fails to match ''
           @ ''the required pattern: /^(GET|POST|PUT|DELETE|HEAD|ANY)$/]]]'')\<close>
proof -
  have 1: "omitted (JObj [(''region'', JNum 5)]) [] ''serviceName''"
    by (simp add: omitted_def get_prop_def)
  have 2: \<open>Validate \<lparr> JSON_parse = (\<lambda>_. None), toNumber = (\<lambda>_. NotANumber) \<rparr>
        (Some (JObj [(''region'', JNum 5)]))
      = Inl (ValidationError ''child "region" fails because ["region" must be a string]'')\<close>
    by code_simp
  have 3: \<open>\<not> sublist ''"serviceName" is required''
          ''child "region" fails because ["region" must be a string]''\<close>
    unfolding str_match_sublist[symmetric] by code_simp
  have 4: "omitted
        (JObj [(''serviceName'', JStr ''svc''),
               (''endpoints'',
                  JArr [JObj [(''path'', JStr ''/''), (''method'', JStr ''FETCH''),
                              (''function'', JObj [])]])])
        [Key ''endpoints'', Index 0, Key ''function''] ''functionName''"
    by (simp add: omitted_def get_prop_def)
  have 5: \<open>Validate \<lparr> JSON_parse = (\<lambda>_. None), toNumber = (\<lambda>_. NotANumber) \<rparr>
        (Some (JObj [(''serviceName'', JStr ''svc''),
                     (''endpoints'',
                        JArr [JObj [(''path'', JStr ''/''), (''method'', JStr ''FETCH''),
                                    (''function'', JObj [])]])]))
      = Inl (ValidationError
          (''child "endpoints" fails because ["endpoints" at position 0 fails because ''
           @ ''[child "method" fails because ["method" with value "FETCH" fails to match ''
           @ ''the required pattern: /^(GET|POST|PUT|DELETE|HEAD|ANY)$/]]]''))\<close>
    by code_simp
  have 6: \<open>\<not> sublist ''"endpoints.function.functionName" is required''
          (''child "endpoints" fails because ["endpoints" at position 0 fails because ''
           @ ''[child "method" fails because ["method" with value "FETCH" fails to match ''
           @ ''the required pattern: /^(GET|POST|PUT|DELETE|HEAD|ANY)$/]]]'')\<close>
    unfolding str_match_sublist[symmetric] by code_simp
  from 1 2 3 4 5 6 show ?thesis by blast
qed

subsection \<open>The message of a field replaces each of its errors\<close>

text \<open>
  C10, as the source has it. The error attached with \<open>.error(...)\<close> replaces every error of
  its field, and the fields are validated in the order of the schema, the first failure
  being the one that is raised. Take a configuration in which \<open>serviceName\<close> is missing or
  is anything but a string of 2 to 50 characters, and on which the fields validated before
  \<open>serviceName\<close> pass (\<open>region\<close>, \<open>serviceId\<close> and \<open>protocol\<close>): it is rejected with the
  error whose message is exactly \<open>"serviceName" is required\<close>, whatever its other fields
  hold. The same holds for \<open>usagePlanName\<close> in the \<open>usagePlan\<close> of an endpoint (a string
  of 2 to 50 characters) and for \<open>functionName\<close> in the \<open>function\<close> of an endpoint (a
  non-empty string), with their own messages, when the validation arrives at the field.
\<close>

theorem custom_message_on_every_violation:
  \<open>(cfg = JObj ob
      \<and> \<not> (\<exists>s. get_prop ob ''serviceName'' = Some (JStr s) \<and> 2 \<le> length s \<and> length s \<le> 50)
      \<and> top_field_reached e cfg ''serviceName''
     \<longrightarrow> Validate e (Some cfg) = Inl (Error ''"serviceName" is required''))
   \<and> (get_path cfg [Key ''endpoints'', Index i, Key ''usagePlan''] = Some (JObj ob)
      \<and> \<not> (\<exists>s. get_prop ob ''usagePlanName'' = Some (JStr s) \<and> 2 \<le> length s \<and> length s \<le> 50)
      \<and> field_reached e cfg i ''usagePlan'' usagePlanScheme ''usagePlanName''
     \<longrightarrow> Validate e (Some cfg) = Inl (Error ''"usagePlan.usagePlanName" is required''))
   \<and> (get_path cfg [Key ''endpoints'', Index i, Key ''function''] = Some (JObj ob)
      \<and> \<not> (\<exists>s. get_prop ob ''functionName'' = Some (JStr s) \<and> s \<noteq> [])
      \<and> field_reached e cfg i ''function'' functionKeys ''functionName''
     \<longrightarrow> Validate e (Some cfg) = Inl (Error ''"endpoints.function.functionName" is required''))\<close>
proof (intro conjI impI)
  assume a: "cfg = JObj ob
      \<and> \<not> (\<exists>s. get_prop ob ''serviceName'' = Some (JStr s) \<and> 2 \<le> length s \<and> length s \<le> 50)
      \<and> top_field_reached e cfg ''serviceName''"
  let ?c = \<open>chain Joi_string [string_min 2, string_max 50, required, with_error ''"serviceName" is required'']\<close>
  have mem: "(''serviceName'', ?c) \<in> set globalKeys"
    by (simp add: globalKeys_def)
  from a have "top_field_reached e (JObj ob) ''serviceName''"
    by blast
  then have r: "earlier_pass e globalKeys ''serviceName'' ob"
    by (simp only: reached_top_iff)
  from name_field[of "get_prop ob ''serviceName''" e _ "\<lparr> allowUnknown = True \<rparr>" "''serviceName''"] a
  obtain t where \<open>rerrors (validate e ?c \<lparr> allowUnknown = True \<rparr> ''serviceName''
      (get_prop ob ''serviceName'')) = [Item ''serviceName'' (Some ''"serviceName" is required'') t []]\<close>
    by auto
  from reached_top_message[OF mem r this] a
  show \<open>Validate e (Some cfg) = Inl (Error ''"serviceName" is required'')\<close>
    by simp
next
  assume a: "get_path cfg [Key ''endpoints'', Index i, Key ''usagePlan''] = Some (JObj ob)
      \<and> \<not> (\<exists>s. get_prop ob ''usagePlanName'' = Some (JStr s) \<and> 2 \<le> length s \<and> length s \<le> 50)
      \<and> field_reached e cfg i ''usagePlan'' usagePlanScheme ''usagePlanName''"
  let ?c = \<open>chain Joi_string [string_min 2, string_max 50, required,
              with_error ''"usagePlan.usagePlanName" is required'']\<close>
  have mem: "(''usagePlanName'', ?c) \<in> set usagePlanScheme"
    by (simp add: usagePlanScheme_def)
  from a have f: "get_path cfg [Key ''endpoints'', Index i, Key ''usagePlan''] = Some (JObj ob)"
    and reach: "field_reached e cfg i ''usagePlan'' usagePlanScheme ''usagePlanName''"
    by simp_all
  from name_field[of "get_prop ob ''usagePlanName''" e _ "\<lparr> allowUnknown = True \<rparr>" "''usagePlanName''"] a
  obtain t where \<open>rerrors (validate e ?c \<lparr> allowUnknown = True \<rparr> ''usagePlanName''
      (get_prop ob ''usagePlanName''))
      = [Item ''usagePlanName'' (Some ''"usagePlan.usagePlanName" is required'') t []]\<close>
    by auto
  from reached_nested_message[OF reach f endpointKeys_mem(2) _ distinct_keys(4) mem this]
  show \<open>Validate e (Some cfg) = Inl (Error ''"usagePlan.usagePlanName" is required'')\<close>
    by simp
next
  assume a: "get_path cfg [Key ''endpoints'', Index i, Key ''function''] = Some (JObj ob)
      \<and> \<not> (\<exists>s. get_prop ob ''functionName'' = Some (JStr s) \<and> s \<noteq> [])
      \<and> field_reached e cfg i ''function'' functionKeys ''functionName''"
  let ?c = \<open>chain Joi_string [required, with_error ''"endpoints.function.functionName" is required'']\<close>
  have mem: "(''functionName'', ?c) \<in> set functionKeys"
    by (simp add: functionKeys_def)
  from a have f: "get_path cfg [Key ''endpoints'', Index i, Key ''function''] = Some (JObj ob)"
    and reach: "field_reached e cfg i ''function'' functionKeys ''functionName''"
    by simp_all
  from functionName_field[of "get_prop ob ''functionName''" e _ "\<lparr> allowUnknown = True \<rparr>" "''functionName''"] a
  obtain t where \<open>rerrors (validate e ?c \<lparr> allowUnknown = True \<rparr> ''functionName''
      (get_prop ob ''functionName''))
      = [Item ''functionName'' (Some ''"endpoints.function.functionName" is required'') t []]\<close>
    by auto
  from reached_nested_message[OF reach f endpointKeys_mem(1) _ distinct_keys(3) mem this]
  show \<open>Validate e (Some cfg) = Inl (Error ''"endpoints.function.functionName" is required'')\<close>
    by simp
qed

theorem custom_message_on_every_violation_witness:
  \<open>Validate \<lparr> JSON_parse = (\<lambda>_. None), toNumber = (\<lambda>_. NotANumber) \<rparr>
      (Some (JObj [(''serviceName'', JStr ''a'')]))
     = Inl (Error ''"serviceName" is required'')
   \<and> Validate \<lparr> JSON_parse = (\<lambda>_. None), toNumber = (\<lambda>_. NotANumber) \<rparr>
      (Some (JObj [(''serviceName'', JNum 7), (''endpoints'', JStr ''none'')]))
     = Inl (Error ''"serviceName" is required'')
   \<and> Validate \<lparr> JSON_parse = (\<lambda>_. None), toNumber = (\<lambda>_. NotANumber) \<rparr>
      (Some (JObj [(''serviceName'', JStr ''svc''),
                   (''endpoints'',
                      JArr [JObj [(''path'', JStr ''/''), (''method'', JStr ''GET''),
                                  (''function'', JObj [(''functionName'', JStr ''f'')]),
                                  (''usagePlan'', JObj [(''usagePlanName'', JStr ''p'')]),
                                  (''auth'', JNum 1)]])]))
     = Inl (Error ''"usagePlan.usagePlanName" is required'')
   \<and> Validate \<lparr> JSON_parse = (\<lambda>_. None), toNumber = (\<lambda>_. NotANumber) \<rparr>
      (Some (JObj [(''serviceName'', JStr ''svc''),
                   (''endpoints'',
                      JArr [JObj [(''path'', JStr ''/''), (''method'', JStr ''GET''),
                                  (''function'', JObj [(''functionName'', JBool True)])]])]))
     = Inl (Error ''"endpoints.function.functionName" is required'')\<close>
proof -
  let ?e = "\<lparr> JSON_parse = (\<lambda>_. None), toNumber = (\<lambda>_. NotANumber) \<rparr>"
  let ?a1 = "[(''serviceName'', JStr ''a'')]"
  let ?a2 = "[(''serviceName'', JNum 7), (''endpoints'', JStr ''none'')]"
  let ?up = "[(''usagePlanName'', JStr ''p'')]"
  let ?b = "JObj [(''serviceName'', JStr ''svc''),
                   (''endpoints'',
                      JArr [JObj [(''path'', JStr ''/''), (''method'', JStr ''GET''),
                                  (''function'', JObj [(''functionName'', JStr ''f'')]),
                                  (''usagePlan'', JObj ?up),
                                  (''auth'', JNum 1)]])]"
  let ?fn = "[(''functionName'', JBool True)]"
  let ?c = "JObj [(''serviceName'', JStr ''svc''),
                   (''endpoints'',
                      JArr [JObj [(''path'', JStr ''/''), (''method'', JStr ''GET''),
                                  (''function'', JObj ?fn)]])]"
  note t = custom_message_on_every_violation[where e = ?e and i = 0]
  have v1: "\<not> (\<exists>s. get_prop ?a1 ''serviceName'' = Some (JStr s) \<and> 2 \<le> length s \<and> length s \<le> 50)"
    by (simp add: get_prop_def)
  have r1: "top_field_reached ?e (JObj ?a1) ''serviceName''"
    by code_simp
  from t[where cfg = "JObj ?a1" and ob = ?a1, THEN conjunct1] v1 r1
  have 1: \<open>Validate ?e (Some (JObj ?a1)) = Inl (Error ''"serviceName" is required'')\<close>
    by blast
  have v2: "\<not> (\<exists>s. get_prop ?a2 ''serviceName'' = Some (JStr s) \<and> 2 \<le> length s \<and> length s \<le> 50)"
    by (simp add: get_prop_def)
  have r2: "top_field_reached ?e (JObj ?a2) ''serviceName''"
    by code_simp
  from t[where cfg = "JObj ?a2" and ob = ?a2, THEN conjunct1] v2 r2
  have 2: \<open>Validate ?e (Some (JObj ?a2)) = Inl (Error ''"serviceName" is required'')\<close>
    by blast
  have pb: "get_path ?b [Key ''endpoints'', Index 0, Key ''usagePlan''] = Some (JObj ?up)"
    by (simp add: get_prop_def)
  have vb: "\<not> (\<exists>s. get_prop ?up ''usagePlanName'' = Some (JStr s) \<and> 2 \<le> length s \<and> length s \<le> 50)"
    by (simp add: get_prop_def)
  have rb: "field_reached ?e ?b 0 ''usagePlan'' usagePlanScheme ''usagePlanName''"
    by code_simp
  from t[where cfg = ?b and ob = ?up, THEN conjunct2, THEN conjunct1] pb vb rb
  have 3: \<open>Validate ?e (Some ?b) = Inl (Error ''"usagePlan.usagePlanName" is required'')\<close>
    by blast
  have pc: "get_path ?c [Key ''endpoints'', Index 0, Key ''function''] = Some (JObj ?fn)"
    by (simp add: get_prop_def)
  have vc: "\<not> (\<exists>s. get_prop ?fn ''functionName'' = Some (JStr s) \<and> s \<noteq> [])"
    by (simp add: get_prop_def)
  have rc: "field_reached ?e ?c 0 ''function'' functionKeys ''functionName''"
    by code_simp
  from t[where cfg = ?c and ob = ?fn, THEN conjunct2, THEN conjunct2] pc vc rc
  have 4: \<open>Validate ?e (Some ?c) = Inl (Error ''"endpoints.function.functionName" is required'')\<close>
    by blast
  from 1 2 3 4 show ?thesis
    by (intro conjI)
qed

text \<open>
  C10, as the claim states it, fails when a field that is validated before \<open>serviceName\<close> is
  invalid: with \<open>region\<close> a number and \<open>serviceName\<close> a string of one character, the error
  raised is the one of \<open>region\<close>.
\<close>

theorem custom_message_masked:
  \<open>get_path (JObj [(''region'', JNum 5), (''serviceName'', JStr ''a''), (''endpoints'', JArr [])])
       [Key ''serviceName''] = Some (JStr ''a'')
   \<and> Validate \<lparr> JSON_parse = (\<lambda>_. None), toNumber = (\<lambda>_. NotANumber) \<rparr>
        (Some (JObj [(''region'', JNum 5), (''serviceName'', JStr ''a''), (''endpoints'', JArr [])]))
      = Inl (ValidationError ''child "region" fails because ["region" must be a string]'')
   \<and> error_message (ValidationError ''child "region" fails because ["region" must be a string]'')
      \<noteq> ''"serviceName" is required''\<close>
proof -
  have 1: "get_path (JObj [(''region'', JNum 5), (''serviceName'', JStr ''a''), (''endpoints'', JArr [])])
       [Key ''serviceName''] = Some (JStr ''a'')"
    by (simp add: get_prop_def)
  have 2: \<open>Validate \<lparr> JSON_parse = (\<lambda>_. None), toNumber = (\<lambda>_. NotANumber) \<rparr>
        (Some (JObj [(''region'', JNum 5), (''serviceName'', JStr ''a''), (''endpoints'', JArr [])]))
      = Inl (ValidationError ''child "region" fails because ["region" must be a string]'')\<close>
    by code_simp
  have 3: \<open>error_message (ValidationError ''child "region" fails because ["region" must be a string]'')
      \<noteq> ''"serviceName" is required''\<close>
    by simp
  from 1 2 3 show ?thesis by blast
qed

subsection \<open>Keys that the schemas do not name\<close>

text \<open>
  The errors of an object depend only on the errors of its children on their own
  properties.
\<close>

lemma children_errors_cong:
  assumes "distinct (map fst ch)"
    and "\<forall>(k, c) \<in> set ch.
           rerrors (validate e c opts k (get_prop t1 k)) = rerrors (validate e c opts k (get_prop t2 k))"
  shows "snd (validate_children e opts ferr ch t1) = snd (validate_children e opts ferr ch t2)"
  using assms
proof (induction ch arbitrary: t1 t2)
  case Nil
  then show ?case by simp
next
  case (Cons a ch)
  obtain k0 c0 where a: "a = (k0, c0)" by (cases a)
  let ?r1 = "validate e c0 opts k0 (get_prop t1 k0)"
  let ?r2 = "validate e c0 opts k0 (get_prop t2 k0)"
  let ?u1 = "(case rvalue ?r1 of
                None \<Rightarrow> (if get_prop t1 k0 \<noteq> None then delete_prop k0 t1 else t1)
              | Some v \<Rightarrow> set_prop k0 v t1)"
  let ?u2 = "(case rvalue ?r2 of
                None \<Rightarrow> (if get_prop t2 k0 \<noteq> None then delete_prop k0 t2 else t2)
              | Some v \<Rightarrow> set_prop k0 v t2)"
  from Cons.prems(1) have d: "distinct (map fst ch)" and nk: "k0 \<notin> fst ` set ch"
    by (auto simp: a)
  from Cons.prems(2) have same: "rerrors ?r1 = rerrors ?r2" by (simp add: a)
  show ?case
  proof (cases "rerrors ?r1 = []")
    case False
    with same show ?thesis by (simp add: a Let_def)
  next
    case True
    have keep1: "get_prop ?u1 k = get_prop t1 k" if "k \<noteq> k0" for k
      using that by (auto simp: get_set_prop get_delete_prop split: option.splits)
    have keep2: "get_prop ?u2 k = get_prop t2 k" if "k \<noteq> k0" for k
      using that by (auto simp: get_set_prop get_delete_prop split: option.splits)
    have "\<forall>(k, c) \<in> set ch.
           rerrors (validate e c opts k (get_prop ?u1 k)) = rerrors (validate e c opts k (get_prop ?u2 k))"
    proof (clarify)
      fix k c assume kc: "(k, c) \<in> set ch"
      then have "k \<noteq> k0" using nk by force
      with kc Cons.prems(2) keep1[of k] keep2[of k]
      show "rerrors (validate e c opts k (get_prop ?u1 k)) = rerrors (validate e c opts k (get_prop ?u2 k))"
        by auto
    qed
    from Cons.IH[OF d this] True same show ?thesis
      by (simp add: a Let_def)
  qed
qed

lemma items_errors_cong:
  assumes "length xs = length ys"
    and "\<forall>j<length xs. \<forall>key'.
           rerrors (validate e inc opts key' (Some (xs ! j))) = rerrors (validate e inc opts key' (Some (ys ! j)))"
  shows "snd (checkItems e opts ferr key w (Some inc) n xs) = snd (checkItems e opts ferr key w (Some inc) n ys)"
  using assms
proof (induction xs arbitrary: ys n)
  case Nil
  then show ?case by simp
next
  case (Cons x xs)
  then obtain y ys' where ys: "ys = y # ys'" by (cases ys) auto
  let ?k = "if w then show_nat n else key"
  from Cons.prems(2)[rule_format, of 0 ?k] ys
  have same: "rerrors (validate e inc opts ?k (Some x)) = rerrors (validate e inc opts ?k (Some y))"
    by simp
  obtain vx where vx: "rvalue (validate e inc opts ?k (Some x)) = Some vx"
    using validate_Some_value by blast
  obtain vy where vy: "rvalue (validate e inc opts ?k (Some y)) = Some vy"
    using validate_Some_value by blast
  have "\<forall>j<length xs. \<forall>key'.
           rerrors (validate e inc opts key' (Some (xs ! j))) = rerrors (validate e inc opts key' (Some (ys' ! j)))"
  proof (intro allI impI)
    fix j key' assume "j < length xs"
    then have "Suc j < length (x # xs)" by simp
    from Cons.prems(2)[rule_format, OF this, of key'] ys
    show "rerrors (validate e inc opts key' (Some (xs ! j))) = rerrors (validate e inc opts key' (Some (ys' ! j)))"
      by simp
  qed
  from Cons.IH[OF _ this, of "Suc n"] Cons.prems(1) ys
  have "snd (checkItems e opts ferr key w (Some inc) (Suc n) xs)
        = snd (checkItems e opts ferr key w (Some inc) (Suc n) ys')"
    by simp
  with same vx vy show ?case
    unfolding ys by (auto simp: Let_def split: prod.splits)
qed

lemma endpoints_errors_cong:
  assumes "length xs = length ys"
    and "\<forall>j<length xs. \<forall>key'.
           rerrors (validate e endpointScheme \<lparr> allowUnknown = True \<rparr> key' (Some (xs ! j)))
           = rerrors (validate e endpointScheme \<lparr> allowUnknown = True \<rparr> key' (Some (ys ! j)))"
  shows "rerrors (validate e endpointsScheme \<lparr> allowUnknown = True \<rparr> k (Some (JArr xs)))
         = rerrors (validate e endpointsScheme \<lparr> allowUnknown = True \<rparr> k (Some (JArr ys)))"
proof -
  let ?o = "\<lparr> allowUnknown = True \<rparr>"
  obtain xs' ex where cx: "checkItems e ?o None k True (Some endpointScheme) 0 xs = (xs', ex)"
    by (cases "checkItems e ?o None k True (Some endpointScheme) 0 xs")
  obtain ys' ey where cy: "checkItems e ?o None k True (Some endpointScheme) 0 ys = (ys', ey)"
    by (cases "checkItems e ?o None k True (Some endpointScheme) 0 ys")
  from items_errors_cong[OF assms, of None k True 0] cx cy have ee: "ex = ey" by simp
  show ?thesis
  proof (cases "ex = []")
    case True
    with checkItems_ok cx cy ee have "length xs' = length xs" "length ys' = length ys"
      by blast+
    with assms(1) cx cy ee True show ?thesis
      by (simp add: validate_endpoints)
  next
    case False
    with cx cy ee show ?thesis by (simp add: validate_endpoints)
  qed
qed

lemma unknown_top_key_errors:
  assumes "k \<notin> fst ` set globalKeys"
  shows "rerrors (validate e globalScheme defaults [] (Some (JObj (set_prop k v props))))
         = rerrors (validate e globalScheme defaults [] (Some (JObj props)))"
proof -
  have "\<forall>(k', c) \<in> set globalKeys.
          rerrors (validate e c \<lparr> allowUnknown = True \<rparr> k' (get_prop (set_prop k v props) k'))
          = rerrors (validate e c \<lparr> allowUnknown = True \<rparr> k' (get_prop props k'))"
    using assms by (force simp: get_set_prop)
  from children_errors_cong[OF distinct_keys(1) this] show ?thesis
    by (simp add: validate_global)
qed

lemma unknown_endpoint_key_errors:
  assumes "k \<notin> fst ` set endpointKeys"
    and "get_prop props ''endpoints'' = Some (JArr eps)"
    and "i < length eps"
    and "eps ! i = JObj ep"
  shows "rerrors (validate e globalScheme defaults []
            (Some (JObj (set_prop ''endpoints'' (JArr (eps[i := JObj (set_prop k v ep)])) props))))
         = rerrors (validate e globalScheme defaults [] (Some (JObj props)))"
proof -
  let ?o = "\<lparr> allowUnknown = True \<rparr>"
  let ?eps = "eps[i := JObj (set_prop k v ep)]"
  have ep: "rerrors (validate e endpointScheme ?o key' (Some (JObj (set_prop k v ep))))
            = rerrors (validate e endpointScheme ?o key' (Some (JObj ep)))" for key'
  proof -
    have "\<forall>(k', c) \<in> set endpointKeys.
          rerrors (validate e c ?o k' (get_prop (set_prop k v ep) k'))
          = rerrors (validate e c ?o k' (get_prop ep k'))"
      using assms(1) by (force simp: get_set_prop)
    from children_errors_cong[OF distinct_keys(2) this] show ?thesis
      by (simp add: validate_endpoint)
  qed
  have "\<forall>j<length ?eps. \<forall>key'.
           rerrors (validate e endpointScheme ?o key' (Some (?eps ! j)))
           = rerrors (validate e endpointScheme ?o key' (Some (eps ! j)))"
    using ep assms(3,4) by (auto simp: nth_list_update)
  from endpoints_errors_cong[OF _ this]
  have arr: "rerrors (validate e endpointsScheme ?o ''endpoints'' (Some (JArr ?eps)))
             = rerrors (validate e endpointsScheme ?o ''endpoints'' (Some (JArr eps)))"
    by simp
  have "\<forall>(k', c) \<in> set globalKeys.
          rerrors (validate e c ?o k' (get_prop (set_prop ''endpoints'' (JArr ?eps) props) k'))
          = rerrors (validate e c ?o k' (get_prop props k'))"
  proof (clarify)
    fix k' c assume kc: "(k', c) \<in> set globalKeys"
    show "rerrors (validate e c ?o k' (get_prop (set_prop ''endpoints'' (JArr ?eps) props) k'))
          = rerrors (validate e c ?o k' (get_prop props k'))"
    proof (cases "k' = ''endpoints''")
      case True
      with kc have "c = endpointsScheme" by (auto simp: globalKeys_def)
      with True arr assms(2) show ?thesis by (simp add: get_set_prop)
    next
      case False
      then show ?thesis by (simp add: get_set_prop)
    qed
  qed
  from children_errors_cong[OF distinct_keys(1) this] show ?thesis
    by (simp add: validate_global)
qed

lemma Validate_same_errors:
  assumes "rerrors (validate e globalScheme defaults [] (Some a))
           = rerrors (validate e globalScheme defaults [] (Some b))"
  shows "Validate e (Some a) = Inl err \<longleftrightarrow> Validate e (Some b) = Inl err"
  using assms by (simp add: Validate_unfold split: option.splits)

lemma known_keys:
  "fst ` set globalKeys =
     {''region'', ''serviceId'', ''protocol'', ''serviceName'', ''description'', ''environment'',
      ''endpoints''}"
  "fst ` set endpointKeys =
     {''apiId'', ''description'', ''enableCORS'', ''path'', ''method'', ''function'', ''usagePlan'',
      ''auth''}"
  by (auto simp: globalKeys_def endpointKeys_def)

lemma set_path_endpoint_key:
  assumes "get_path cfg [Key a, Index i] = Some (JObj ep)"
  shows "\<exists>props eps. cfg = JObj props \<and> get_prop props a = Some (JArr eps)
    \<and> i < length eps \<and> eps ! i = JObj ep
    \<and> (\<forall>k v. set_path [Key a, Index i, Key k] v cfg =
           JObj (set_prop a (JArr (eps[i := JObj (set_prop k v ep)])) props))"
proof -
  from assms obtain props eps where s: "cfg = JObj props" "get_prop props a = Some (JArr eps)"
    "i < length eps" "eps ! i = JObj ep"
    by (auto simp: get_path_Key get_path_Index)
  then have "set_path [Key a, Index i, Key k] v cfg =
           JObj (set_prop a (JArr (eps[i := JObj (set_prop k v ep)])) props)" for k v
    by simp
  with s show ?thesis by blast
qed

text \<open>
  C3, as the source has it. \<open>allowUnknown\<close> is set with \<open>.options(...)\<close>, which joi applies
  to the schema and to every schema below it. So a key that the schema does not name is
  allowed and kept at the top level and inside an element of \<open>endpoints\<close> alike: assigning
  such a key changes neither whether the configuration is rejected nor the error it is
  rejected with, and in the object returned for an accepted configuration the key has the
  value it had.
\<close>

theorem unknown_keys_allowed_and_kept:
  "(k \<notin> {''region'', ''serviceId'', ''protocol'', ''serviceName'', ''description'',
           ''environment'', ''endpoints''} \<longrightarrow>
      (Validate e (Some (set_path [Key k] v cfg)) = Inl err \<longleftrightarrow> Validate e (Some cfg) = Inl err)
      \<and> (get_path cfg [Key k] = Some x \<and> Validate e (Some cfg) = Inr (Some res)
           \<longrightarrow> get_path res [Key k] = Some x))
   \<and> (k \<notin> {''apiId'', ''description'', ''enableCORS'', ''path'', ''method'', ''function'',
             ''usagePlan'', ''auth''} \<longrightarrow>
      (get_path cfg [Key ''endpoints'', Index i] = Some (JObj ep) \<longrightarrow>
         (Validate e (Some (set_path [Key ''endpoints'', Index i, Key k] v cfg)) = Inl err
          \<longleftrightarrow> Validate e (Some cfg) = Inl err))
      \<and> (get_path cfg [Key ''endpoints'', Index i, Key k] = Some x
           \<and> Validate e (Some cfg) = Inr (Some res)
           \<longrightarrow> get_path res [Key ''endpoints'', Index i, Key k] = Some x))"
proof (intro conjI impI)
  assume k: "k \<notin> {''region'', ''serviceId'', ''protocol'', ''serviceName'', ''description'',
           ''environment'', ''endpoints''}"
  then have u: "k \<notin> fst ` set globalKeys" unfolding known_keys .
  show "Validate e (Some (set_path [Key k] v cfg)) = Inl err \<longleftrightarrow> Validate e (Some cfg) = Inl err"
  proof (cases cfg)
    case (JObj props)
    have "set_path [Key k] v cfg = JObj (set_prop k v props)"
      by (simp add: JObj)
    with Validate_same_errors[OF unknown_top_key_errors[OF u, of e v props], of err]
    show ?thesis by (simp add: JObj)
  qed simp_all
next
  assume k: "k \<notin> {''region'', ''serviceId'', ''protocol'', ''serviceName'', ''description'',
           ''environment'', ''endpoints''}"
    and a: "get_path cfg [Key k] = Some x \<and> Validate e (Some cfg) = Inr (Some res)"
  from k have u: "k \<notin> fst ` set globalKeys" unfolding known_keys .
  from a obtain props where cfg: "cfg = JObj props" and x: "get_prop props k = Some x"
    by (auto simp: get_path_Key)
  from a have acc: "Validate e (Some (JObj props)) = Inr (Some res)"
    by (simp add: cfg)
  from acc obtain t where t: "res = JObj t"
    "validate_children e \<lparr> allowUnknown = True \<rparr> None globalKeys props = (t, [])"
    by (rule accepted_global) auto
  from child_unknown[OF t(2) distinct_keys(1) u] x t(1)
  show "get_path res [Key k] = Some x" by simp
next
  assume k: "k \<notin> {''apiId'', ''description'', ''enableCORS'', ''path'', ''method'', ''function'',
             ''usagePlan'', ''auth''}"
    and p: "get_path cfg [Key ''endpoints'', Index i] = Some (JObj ep)"
  from k have u: "k \<notin> fst ` set endpointKeys" unfolding known_keys .
  from set_path_endpoint_key[OF p] obtain props eps where s: "cfg = JObj props"
    "get_prop props ''endpoints'' = Some (JArr eps)" "i < length eps" "eps ! i = JObj ep"
    "set_path [Key ''endpoints'', Index i, Key k] v cfg =
           JObj (set_prop ''endpoints'' (JArr (eps[i := JObj (set_prop k v ep)])) props)"
    by blast
  from Validate_same_errors[OF unknown_endpoint_key_errors[OF u s(2,3,4), of e v], of err]
  show "Validate e (Some (set_path [Key ''endpoints'', Index i, Key k] v cfg)) = Inl err
          \<longleftrightarrow> Validate e (Some cfg) = Inl err"
    unfolding s(5) by (simp add: s(1))
next
  assume k: "k \<notin> {''apiId'', ''description'', ''enableCORS'', ''path'', ''method'', ''function'',
             ''usagePlan'', ''auth''}"
    and a: "get_path cfg [Key ''endpoints'', Index i, Key k] = Some x
           \<and> Validate e (Some cfg) = Inr (Some res)"
  from k have u: "k \<notin> fst ` set endpointKeys" unfolding known_keys .
  from a obtain ep where p: "get_path cfg [Key ''endpoints'', Index i] = Some (JObj ep)"
    and x: "get_prop ep k = Some x"
    by (auto simp: get_path_Key get_path_Index)
  from a have acc: "Validate e (Some cfg) = Inr (Some res)" by simp
  from accepted_endpoint_keys[OF acc p] obtain t ys ti where r: "res = JObj t"
    "get_prop t ''endpoints'' = Some (JArr ys)" "i < length ys" "ys ! i = JObj ti"
    "validate_children e \<lparr> allowUnknown = True \<rparr> None endpointKeys ep = (ti, [])"
    by blast
  from child_unknown[OF r(5) distinct_keys(2) u] x r
  show "get_path res [Key ''endpoints'', Index i, Key k] = Some x" by simp
qed

theorem unknown_keys_allowed_and_kept_witness:
  \<open>Validate \<lparr> JSON_parse = (\<lambda>_. None), toNumber = (\<lambda>_. NotANumber) \<rparr>
      (Some (JObj [(''region'', JNum 5), (''foo'', JNull)]))
     = Inl (ValidationError ''child "region" fails because ["region" must be a string]'')
   \<and> Validate \<lparr> JSON_parse = (\<lambda>_. None), toNumber = (\<lambda>_. NotANumber) \<rparr>
      (Some (JObj [(''serviceName'', JStr ''svc''),
                   (''endpoints'',
                      JArr [JObj [(''path'', JStr ''/''), (''method'', JStr ''GET''),
                                  (''function'', JObj []), (''zzz'', JNum 1)]])]))
     = Inl (Error ''"endpoints.function.functionName" is required'')
   \<and> (\<exists>res.
        Validate \<lparr> JSON_parse = (\<lambda>_. None), toNumber = (\<lambda>_. NotANumber) \<rparr>
          (Some (JObj [(''serviceName'', JStr ''svc''), (''foo'', JNull),
                       (''endpoints'',
                          JArr [JObj [(''path'', JStr ''/''), (''method'', JStr ''GET''),
                                      (''function'', JObj [(''functionName'', JStr ''f'')]),
                                      (''zzz'', JNum 1)]])]))
          = Inr (Some res)
        \<and> get_path res [Key ''foo''] = Some JNull
        \<and> get_path res [Key ''endpoints'', Index 0, Key ''zzz''] = Some (JNum 1))\<close>
proof -
  let ?e = "\<lparr> JSON_parse = (\<lambda>_. None), toNumber = (\<lambda>_. NotANumber) \<rparr>"
  let ?a = "JObj [(''region'', JNum 5)]"
  let ?ep = "[(''path'', JStr ''/''), (''method'', JStr ''GET''), (''function'', JObj [])]"
  let ?b = "JObj [(''serviceName'', JStr ''svc''), (''endpoints'', JArr [JObj ?ep])]"
  let ?c = "JObj [(''serviceName'', JStr ''svc''), (''foo'', JNull),
                       (''endpoints'',
                          JArr [JObj [(''path'', JStr ''/''), (''method'', JStr ''GET''),
                                      (''function'', JObj [(''functionName'', JStr ''f'')]),
                                      (''zzz'', JNum 1)]])]"
  let ?res = "JObj [(''serviceName'', JStr ''svc''), (''foo'', JNull),
                       (''endpoints'',
                          JArr [JObj [(''path'', JStr ''/''), (''method'', JStr ''GET''),
                                      (''function'',
                                         JObj [(''functionName'', JStr ''f''),
                                               (''isIntegratedResponse'', JBool False),
                                               (''functionQualifier'', JStr ''$LATEST'')]),
                                      (''zzz'', JNum 1),
                                      (''enableCORS'', JBool False)]]),
                       (''region'', JStr ''ap-guangzhou''), (''protocol'', JStr ''http''),
                       (''environment'', JStr ''release'')]"
  have ka: "''foo'' \<notin> {''region'', ''serviceId'', ''protocol'', ''serviceName'', ''description'',
           ''environment'', ''endpoints''}"
    by simp
  have kb: "''zzz'' \<notin> {''apiId'', ''description'', ''enableCORS'', ''path'', ''method'', ''function'',
             ''usagePlan'', ''auth''}"
    by simp
  have ea: \<open>Validate ?e (Some ?a)
              = Inl (ValidationError ''child "region" fails because ["region" must be a string]'')\<close>
    by code_simp
  have eb: \<open>Validate ?e (Some ?b) = Inl (Error ''"endpoints.function.functionName" is required'')\<close>
    by code_simp
  have pb: "get_path ?b [Key ''endpoints'', Index 0] = Some (JObj ?ep)"
    by (simp add: get_prop_def)
  have acc: "Validate ?e (Some ?c) = Inr (Some ?res)"
    by code_simp
  have pc: "get_path ?c [Key ''foo''] = Some JNull"
    "get_path ?c [Key ''endpoints'', Index 0, Key ''zzz''] = Some (JNum 1)"
    by (simp_all add: get_prop_def)
  note Ta = unknown_keys_allowed_and_kept[where k = "''foo''" and cfg = ?a and e = ?e and v = JNull]
  have 1: \<open>Validate ?e (Some (set_path [Key ''foo''] JNull ?a))
              = Inl (ValidationError ''child "region" fails because ["region" must be a string]'')\<close>
    by (rule Ta[THEN conjunct1, THEN mp, OF ka, THEN conjunct1, THEN iffD2, OF ea])
  note Tb = unknown_keys_allowed_and_kept[where k = "''zzz''" and cfg = ?b and e = ?e
      and v = "JNum 1" and i = 0 and ep = ?ep]
  have 2: \<open>Validate ?e (Some (set_path [Key ''endpoints'', Index 0, Key ''zzz''] (JNum 1) ?b))
              = Inl (Error ''"endpoints.function.functionName" is required'')\<close>
    by (rule Tb[THEN conjunct2, THEN mp, OF kb, THEN conjunct1, THEN mp, OF pb, THEN iffD2, OF eb])
  note Tc = unknown_keys_allowed_and_kept[where cfg = ?c and e = ?e and res = ?res and i = 0]
  have 3: "get_path ?res [Key ''foo''] = Some JNull"
    by (rule Tc[where k = "''foo''", THEN conjunct1, THEN mp, OF ka, THEN conjunct2, THEN mp,
          OF conjI[OF pc(1) acc]])
  have 4: "get_path ?res [Key ''endpoints'', Index 0, Key ''zzz''] = Some (JNum 1)"
    by (rule Tc[where k = "''zzz''", THEN conjunct2, THEN mp, OF kb, THEN conjunct2, THEN mp,
          OF conjI[OF pc(2) acc]])
  have sp: "set_path [Key ''foo''] JNull ?a = JObj [(''region'', JNum 5), (''foo'', JNull)]"
    "set_path [Key ''endpoints'', Index 0, Key ''zzz''] (JNum 1) ?b
       = JObj [(''serviceName'', JStr ''svc''),
               (''endpoints'',
                  JArr [JObj [(''path'', JStr ''/''), (''method'', JStr ''GET''),
                              (''function'', JObj []), (''zzz'', JNum 1)]])]"
    by (simp_all add: get_prop_def)
  from 1[unfolded sp] 2[unfolded sp] acc 3 4 show ?thesis
    by (intro conjI exI[of _ ?res])
qed

text \<open>
  C3, as the claim states it, fails in its second half: a configuration with a key that the
  schema does not name inside an element of \<open>endpoints\<close> is accepted, and the key is
  returned.
\<close>

theorem nested_unknown_key_accepted:
  "get_path
     (JObj [(''serviceName'', JStr ''svc''),
            (''endpoints'',
               JArr [JObj [(''path'', JStr ''/''), (''method'', JStr ''GET''),
                           (''function'', JObj [(''functionName'', JStr ''f'')]),
                           (''zzz'', JNum 1)]])])
     [Key ''endpoints'', Index 0, Key ''zzz''] = Some (JNum 1)
   \<and> Validate \<lparr> JSON_parse = (\<lambda>_. None), toNumber = (\<lambda>_. NotANumber) \<rparr>
       (Some (JObj [(''serviceName'', JStr ''svc''),
                    (''endpoints'',
                       JArr [JObj [(''path'', JStr ''/''), (''method'', JStr ''GET''),
                                   (''function'', JObj [(''functionName'', JStr ''f'')]),
                                   (''zzz'', JNum 1)]])]))
     = Inr (Some (JObj [(''serviceName'', JStr ''svc''),
                    (''endpoints'',
                       JArr [JObj [(''path'', JStr ''/''), (''method'', JStr ''GET''),
                                   (''function'',
                                      JObj [(''functionName'', JStr ''f''),
                                            (''isIntegratedResponse'', JBool False),
                                            (''functionQualifier'', JStr ''$LATEST'')]),
                                   (''zzz'', JNum 1),
                                   (''enableCORS'', JBool False)]]),
                    (''region'', JStr ''ap-guangzhou''), (''protocol'', JStr ''http''),
                    (''environment'', JStr ''release'')]))"
proof -
  have 1: "get_path
     (JObj [(''serviceName'', JStr ''svc''),
            (''endpoints'',
               JArr [JObj [(''path'', JStr ''/''), (''method'', JStr ''GET''),
                           (''function'', JObj [(''functionName'', JStr ''f'')]),
                           (''zzz'', JNum 1)]])])
     [Key ''endpoints'', Index 0, Key ''zzz''] = Some (JNum 1)"
    by (simp add: get_prop_def)
  have 2: "Validate \<lparr> JSON_parse = (\<lambda>_. None), toNumber = (\<lambda>_. NotANumber) \<rparr>
       (Some (JObj [(''serviceName'', JStr ''svc''),
                    (''endpoints'',
                       JArr [JObj [(''path'', JStr ''/''), (''method'', JStr ''GET''),
                                   (''function'', JObj [(''functionName'', JStr ''f'')]),
                                   (''zzz'', JNum 1)]])]))
     = Inr (Some (JObj [(''serviceName'', JStr ''svc''),
                    (''endpoints'',
                       JArr [JObj [(''path'', JStr ''/''), (''method'', JStr ''GET''),
                                   (''function'',
                                      JObj [(''functionName'', JStr ''f''),
                                            (''isIntegratedResponse'', JBool False),
                                            (''functionQualifier'', JStr ''$LATEST'')]),
                                   (''zzz'', JNum 1),
                                   (''enableCORS'', JBool False)]]),
                    (''region'', JStr ''ap-guangzhou''), (''protocol'', JStr ''http''),
                    (''environment'', JStr ''release'')]))"
    by code_simp
  from 1 2 show ?thesis by blast
qed

subsection \<open>Configurations of the shape of the data model are accepted\<close>

text \<open>Each field of the shape, with non-empty strings, passes the schema of its key.\<close>

lemma string_optional_passes:
  assumes "case item of None \<Rightarrow> True | Some v \<Rightarrow> is_string 1 v"
  shows "rerrors (validate e (chain Joi_string [optional]) opts k item) = []"
    and "rerrors (validate e (chain Joi_string [optional, with_default d]) opts k item) = []"
  using assms
  by (cases item; auto simp: is_string_def validate_def finish_def createError_def builders Let_def
        split: json.splits)+

lemma string_required_passes:
  assumes "case item of None \<Rightarrow> False | Some v \<Rightarrow> is_string 1 v"
  shows "rerrors (validate e (chain Joi_string [required]) opts k item) = []"
    and "rerrors (validate e (chain Joi_string [required, with_error m]) opts k item) = []"
  using assms
  by (cases item; auto simp: is_string_def validate_def finish_def createError_def builders Let_def
        split: json.splits)+

lemma string_max_passes:
  assumes "case item of None \<Rightarrow> True | Some v \<Rightarrow> is_string_within 1 hi v"
  shows "rerrors (validate e (chain Joi_string [string_max hi, optional]) opts k item) = []"
  using assms
  by (cases item; auto simp: is_string_within_def validate_def finish_def createError_def builders
        Let_def split: json.splits)

lemma string_name_passes:
  assumes "case item of None \<Rightarrow> False | Some v \<Rightarrow> is_string_within 2 50 v"
  shows "rerrors (validate e (chain Joi_string [string_min 2, string_max 50, required, with_error m])
           opts k item) = []"
  using assms
  by (cases item; auto simp: is_string_within_def validate_def finish_def createError_def builders
        Let_def split: json.splits)

lemma string_regex_passes:
  assumes "[] \<notin> set ws"
  shows "(case item of None \<Rightarrow> True | Some v \<Rightarrow> is_one_of ws v) \<Longrightarrow>
           rerrors (validate e (chain Joi_string [regex (Anchored_alternatives ws), optional,
              with_default d]) opts k item) = []"
    and "(case item of None \<Rightarrow> False | Some v \<Rightarrow> is_one_of ws v) \<Longrightarrow>
           rerrors (validate e (chain Joi_string [regex (Anchored_alternatives ws), required])
              opts k item) = []"
  using assms
  by (cases item; auto simp: is_one_of_def validate_def finish_def createError_def builders Let_def
        split: json.splits)+

lemma boolean_passes:
  assumes "case item of None \<Rightarrow> True | Some v \<Rightarrow> is_bool v"
  shows "rerrors (validate e (chain Joi_boolean [optional, with_default d]) opts k item) = []"
  using assms
  by (cases item; auto simp: is_bool_def validate_def finish_def createError_def builders Let_def
        split: json.splits)

lemma integer_within_passes:
  assumes "case item of None \<Rightarrow> True | Some v \<Rightarrow> is_integer_within lo hi v"
    and "- MAX_SAFE_INTEGER \<le> of_int lo" and "of_int hi \<le> MAX_SAFE_INTEGER"
  shows "rerrors (validate e (chain Joi_number [number_integer, number_min lo, number_max hi,
            optional, with_default d]) opts k item) = []"
  using assms
  by (cases item; auto simp: is_integer_within_def validate_def finish_def createError_def builders
        Let_def split: json.splits)

lemma integer_passes:
  assumes "case item of None \<Rightarrow> True | Some v \<Rightarrow> is_integer v"
  shows "rerrors (validate e (chain Joi_number [number_integer, optional, with_default d])
           opts k item) = []"
  using assms
  by (cases item; auto simp: is_integer_def validate_def finish_def createError_def builders
        Let_def split: json.splits)

lemma sequence_passes:
  assumes "case item of None \<Rightarrow> True | Some v \<Rightarrow> is_sequence 100 P v"
  shows "rerrors (validate e (chain Joi_array [array_max 100]) opts k item) = []"
proof (cases item)
  case None
  then show ?thesis
    by (simp add: validate_None builders)
next
  case (Some v)
  with assms obtain xs where v: "v = JArr xs" and l: "length xs \<le> 100"
    by (cases v) (simp_all add: is_sequence_def)
  from l show ?thesis
    unfolding Some v
    using validate_array[of "chain Joi_array [array_max 100]" None e opts k xs]
    by (simp add: builders checkItems_none)
qed

lemma object_optional_None:
  "rerrors (validate e (chain Joi_object [object_keys ch]) opts k None) = []"
  by (simp add: validate_None builders)

lemma FunctionBinding_passes:
  assumes "case item of None \<Rightarrow> False | Some v \<Rightarrow> FunctionBinding_shape 1 v"
  shows "rerrors (validate e (chain Joi_object [object_keys functionKeys, required])
           \<lparr> allowUnknown = True \<rparr> k item) = []"
proof -
  from assms obtain v where item: "item = Some v" and sh: "FunctionBinding_shape 1 v"
    by (cases item) simp_all
  from sh obtain ob where v: "v = JObj ob"
    by (cases v) (simp_all add: FunctionBinding_shape_def)
  note f = sh[unfolded v FunctionBinding_shape_def optional_field_def required_field_def, simplified]
  have "\<forall>(k, c) \<in> set functionKeys.
          rerrors (validate e c \<lparr> allowUnknown = True \<rparr> k (get_prop ob k)) = []"
    unfolding functionKeys_def
    using boolean_passes[OF f[THEN conjunct1]]
      string_optional_passes(2)[OF f[THEN conjunct2, THEN conjunct1]]
      string_required_passes(2)[OF f[THEN conjunct2, THEN conjunct2]]
    by simp
  from validate_children_all_pass[OF distinct_keys(3) this, of None]
  show ?thesis
    unfolding item v by (simp add: validate_keys_object)
qed

lemma UsagePlan_passes:
  assumes "case item of None \<Rightarrow> True | Some v \<Rightarrow> UsagePlan_shape 1 v"
  shows "rerrors (validate e (chain Joi_object [object_keys usagePlanScheme])
           \<lparr> allowUnknown = True \<rparr> k item) = []"
proof (cases item)
  case None
  then show ?thesis
    by (simp add: object_optional_None)
next
  case (Some v)
  with assms have sh: "UsagePlan_shape 1 v"
    by simp
  then obtain ob where v: "v = JObj ob"
    by (cases v) (simp_all add: UsagePlan_shape_def)
  note f = sh[unfolded v UsagePlan_shape_def optional_field_def required_field_def, simplified]
  have b: "- MAX_SAFE_INTEGER \<le> rat_of_int 1" "rat_of_int 99999999 \<le> MAX_SAFE_INTEGER"
    "rat_of_int 2000 \<le> MAX_SAFE_INTEGER"
    by (simp_all add: MAX_SAFE_INTEGER_def)
  have "\<forall>(k, c) \<in> set usagePlanScheme.
          rerrors (validate e c \<lparr> allowUnknown = True \<rparr> k (get_prop ob k)) = []"
    unfolding usagePlanScheme_def
    using string_optional_passes(1)[OF f[THEN conjunct1]]
      string_max_passes[OF f[THEN conjunct2, THEN conjunct1]]
      integer_within_passes[OF f[THEN conjunct2, THEN conjunct2, THEN conjunct1] b(1,2)]
      integer_within_passes[OF f[THEN conjunct2, THEN conjunct2, THEN conjunct2, THEN conjunct1] b(1,3)]
      string_name_passes[OF f[THEN conjunct2, THEN conjunct2, THEN conjunct2, THEN conjunct2]]
    by simp
  from validate_children_all_pass[OF distinct_keys(4) this, of None]
  show ?thesis
    unfolding Some v by (simp add: validate_keys_object)
qed

lemma AuthConfig_passes:
  assumes "case item of None \<Rightarrow> True | Some v \<Rightarrow> AuthConfig_shape 1 v"
  shows "rerrors (validate e (chain Joi_object [object_keys authKeys])
           \<lparr> allowUnknown = True \<rparr> k item) = []"
proof (cases item)
  case None
  then show ?thesis
    by (simp add: object_optional_None)
next
  case (Some v)
  with assms have sh: "AuthConfig_shape 1 v"
    by simp
  then obtain ob where v: "v = JObj ob"
    by (cases v) (simp_all add: AuthConfig_shape_def)
  note f = sh[unfolded v AuthConfig_shape_def optional_field_def required_field_def, simplified]
  have "\<forall>(k, c) \<in> set authKeys.
          rerrors (validate e c \<lparr> allowUnknown = True \<rparr> k (get_prop ob k)) = []"
    unfolding authKeys_def
    using integer_passes[OF f[THEN conjunct1]]
      string_required_passes(1)[OF f[THEN conjunct2, THEN conjunct1]]
      sequence_passes[OF f[THEN conjunct2, THEN conjunct2]]
    by simp
  from validate_children_all_pass[OF distinct_keys(5) this, of None]
  show ?thesis
    unfolding Some v by (simp add: validate_keys_object)
qed

lemma Endpoint_passes:
  assumes sh: "Endpoint_shape 1 v"
  shows "rerrors (validate e endpointScheme \<lparr> allowUnknown = True \<rparr> k (Some v)) = []"
proof -
  from sh obtain ob where v: "v = JObj ob"
    by (cases v) (simp_all add: Endpoint_shape_def)
  note f = sh[unfolded v Endpoint_shape_def optional_field_def required_field_def, simplified]
  note g = f[THEN conjunct2, THEN conjunct2, THEN conjunct2, THEN conjunct2]
  have w: "[] \<notin> set [''GET'', ''POST'', ''PUT'', ''DELETE'', ''HEAD'', ''ANY'']"
    by simp
  have "\<forall>(k, c) \<in> set endpointKeys.
          rerrors (validate e c \<lparr> allowUnknown = True \<rparr> k (get_prop ob k)) = []"
    unfolding endpointKeys_def
    using string_optional_passes(1)[OF f[THEN conjunct1]]
      string_max_passes[OF f[THEN conjunct2, THEN conjunct1]]
      boolean_passes[OF f[THEN conjunct2, THEN conjunct2, THEN conjunct1]]
      string_required_passes(1)[OF f[THEN conjunct2, THEN conjunct2, THEN conjunct2, THEN conjunct1]]
      string_regex_passes(2)[OF w g[THEN conjunct1]]
      FunctionBinding_passes[OF g[THEN conjunct2, THEN conjunct1]]
      UsagePlan_passes[OF g[THEN conjunct2, THEN conjunct2, THEN conjunct1]]
      AuthConfig_passes[OF g[THEN conjunct2, THEN conjunct2, THEN conjunct2]]
    by simp
  from validate_children_all_pass[OF distinct_keys(2) this, of None]
  show ?thesis
    unfolding v by (simp add: validate_endpoint)
qed

lemma Endpoints_pass:
  assumes "case item of None \<Rightarrow> False | Some v \<Rightarrow> is_sequence 100 (Endpoint_shape 1) v"
  shows "rerrors (validate e endpointsScheme \<lparr> allowUnknown = True \<rparr> k item) = []"
proof -
  from assms obtain v where item: "item = Some v" and sh: "is_sequence 100 (Endpoint_shape 1) v"
    by (cases item) simp_all
  from sh obtain xs where v: "v = JArr xs" and l: "length xs \<le> 100"
    and all: "list_all (Endpoint_shape 1) xs"
    by (cases v) (simp_all add: is_sequence_def)
  have "\<forall>i<length xs. rerrors (validate e endpointScheme \<lparr> allowUnknown = True \<rparr>
          (if True then show_nat (0 + i) else k) (Some (xs ! i))) = []"
    using all Endpoint_passes by (simp add: list_all_length)
  from checkItems_all_pass[OF this, of None]
  have c: "snd (checkItems e \<lparr> allowUnknown = True \<rparr> None k True (Some endpointScheme) 0 xs) = []" .
  obtain ys where ys: "checkItems e \<lparr> allowUnknown = True \<rparr> None k True (Some endpointScheme) 0 xs = (ys, [])"
    using c by (cases "checkItems e \<lparr> allowUnknown = True \<rparr> None k True (Some endpointScheme) 0 xs") simp
  from checkItems_ok[OF ys] l have "length ys \<le> 100"
    by simp
  then show ?thesis
    unfolding item v by (simp add: validate_endpoints ys)
qed

lemma ServiceConfig_accepted:
  assumes sh: "ServiceConfig_shape 1 cfg"
  shows "\<exists>res. Validate e (Some cfg) = Inr (Some res)"
proof -
  from sh obtain ob where v: "cfg = JObj ob"
    by (cases cfg) (simp_all add: ServiceConfig_shape_def)
  note f = sh[unfolded v ServiceConfig_shape_def optional_field_def required_field_def, simplified]
  note g = f[THEN conjunct2, THEN conjunct2, THEN conjunct2, THEN conjunct2]
  have w: "[] \<notin> set [''http'', ''https'', ''http&https'']" "[] \<notin> set [''prepub'', ''test'', ''release'']"
    by simp_all
  have "\<forall>(k, c) \<in> set globalKeys.
          rerrors (validate e c \<lparr> allowUnknown = True \<rparr> k (get_prop ob k)) = []"
    unfolding globalKeys_def
    using string_optional_passes(2)[OF f[THEN conjunct1]]
      string_optional_passes(1)[OF f[THEN conjunct2, THEN conjunct1]]
      string_regex_passes(1)[OF w(1) f[THEN conjunct2, THEN conjunct2, THEN conjunct1]]
      string_name_passes[OF f[THEN conjunct2, THEN conjunct2, THEN conjunct2, THEN conjunct1]]
      string_max_passes[OF g[THEN conjunct1]]
      string_regex_passes(1)[OF w(2) g[THEN conjunct2, THEN conjunct1]]
      Endpoints_pass[OF g[THEN conjunct2, THEN conjunct2]]
    by simp
  from validate_children_all_pass[OF distinct_keys(1) this, of None]
  have "rerrors (validate e globalScheme defaults [] (Some cfg)) = []"
    unfolding v by (simp add: validate_global)
  then have "Validate e (Some cfg) = Inr (rvalue (validate e globalScheme defaults [] (Some cfg)))"
    by (simp add: Validate_Inr_iff)
  with accepted_result show ?thesis
    by metis
qed

subsection \<open>Defaults in the returned object\<close>

text \<open>
  C6, as the source has it. A configuration of the shape of the data model in which no
  string field is empty is accepted, and in the object returned every optional field with
  a documented default that the configuration omits holds that default: \<open>region\<close>,
  \<open>protocol\<close> and \<open>environment\<close> at the top, \<open>enableCORS\<close> in each endpoint,
  \<open>isIntegratedResponse\<close> and \<open>functionQualifier\<close> in its \<open>function\<close>, \<open>maxRequestNum\<close>
  and \<open>maxRequestNumPreSec\<close> in its \<open>usagePlan\<close>, and \<open>serviceTimeout\<close> in its \<open>auth\<close>
  (the last three where the endpoint has a \<open>usagePlan\<close> or an \<open>auth\<close> object).
\<close>

theorem validate_populates_defaults:
  assumes "ServiceConfig_shape 1 cfg"
  shows "\<exists>res. Validate e (Some cfg) = Inr (Some res) \<and>
     (omitted cfg [] ''region'' \<longrightarrow> get_path res [Key ''region''] = Some (JStr ''ap-guangzhou'')) \<and>
     (omitted cfg [] ''protocol'' \<longrightarrow> get_path res [Key ''protocol''] = Some (JStr ''http'')) \<and>
     (omitted cfg [] ''environment'' \<longrightarrow> get_path res [Key ''environment''] = Some (JStr ''release'')) \<and>
     (\<forall>i.
       (omitted cfg [Key ''endpoints'', Index i] ''enableCORS'' \<longrightarrow>
          get_path res [Key ''endpoints'', Index i, Key ''enableCORS''] = Some (JBool False)) \<and>
       (omitted cfg [Key ''endpoints'', Index i, Key ''function''] ''isIntegratedResponse'' \<longrightarrow>
          get_path res [Key ''endpoints'', Index i, Key ''function'', Key ''isIntegratedResponse'']
            = Some (JBool False)) \<and>
       (omitted cfg [Key ''endpoints'', Index i, Key ''function''] ''functionQualifier'' \<longrightarrow>
          get_path res [Key ''endpoints'', Index i, Key ''function'', Key ''functionQualifier'']
            = Some (JStr ''$LATEST'')) \<and>
       (omitted cfg [Key ''endpoints'', Index i, Key ''usagePlan''] ''maxRequestNum'' \<longrightarrow>
          get_path res [Key ''endpoints'', Index i, Key ''usagePlan'', Key ''maxRequestNum'']
            = Some (JNum (- 1))) \<and>
       (omitted cfg [Key ''endpoints'', Index i, Key ''usagePlan''] ''maxRequestNumPreSec'' \<longrightarrow>
          get_path res [Key ''endpoints'', Index i, Key ''usagePlan'', Key ''maxRequestNumPreSec'']
            = Some (JNum 1000)) \<and>
       (omitted cfg [Key ''endpoints'', Index i, Key ''auth''] ''serviceTimeout'' \<longrightarrow>
          get_path res [Key ''endpoints'', Index i, Key ''auth'', Key ''serviceTimeout'']
            = Some (JNum 15)))"
proof -
  from ServiceConfig_accepted[OF assms] obtain res where acc: "Validate e (Some cfg) = Inr (Some res)"
    by blast
  note top = accepted_top_default[OF acc]
  note sub = accepted_sub_default[OF acc]
  have 1: "omitted cfg [] ''region'' \<longrightarrow> get_path res [Key ''region''] = Some (JStr ''ap-guangzhou'')"
    by (intro impI, erule top[OF _ key_facts(1)]) (simp_all add: builders)
  have 2: "omitted cfg [] ''protocol'' \<longrightarrow> get_path res [Key ''protocol''] = Some (JStr ''http'')"
    by (intro impI, erule top[OF _ key_facts(2)]) (simp_all add: builders)
  have 3: "omitted cfg [] ''environment'' \<longrightarrow> get_path res [Key ''environment''] = Some (JStr ''release'')"
    by (intro impI, erule top[OF _ key_facts(3)]) (simp_all add: builders)
  have 4: "omitted cfg [Key ''endpoints'', Index i] ''enableCORS'' \<longrightarrow>
          get_path res [Key ''endpoints'', Index i, Key ''enableCORS''] = Some (JBool False)" for i
    by (intro impI, erule accepted_endpoint_default[OF acc _ key_facts(4)]) (simp_all add: builders)
  have 5: "omitted cfg [Key ''endpoints'', Index i, Key ''function''] ''isIntegratedResponse'' \<longrightarrow>
          get_path res [Key ''endpoints'', Index i, Key ''function'', Key ''isIntegratedResponse'']
            = Some (JBool False)" for i
    by (intro impI, erule sub[OF _ endpointKeys_mem(1) _ distinct_keys(3) key_facts(5)])
       (simp_all add: builders)
  have 6: "omitted cfg [Key ''endpoints'', Index i, Key ''function''] ''functionQualifier'' \<longrightarrow>
          get_path res [Key ''endpoints'', Index i, Key ''function'', Key ''functionQualifier'']
            = Some (JStr ''$LATEST'')" for i
    by (intro impI, erule sub[OF _ endpointKeys_mem(1) _ distinct_keys(3) key_facts(6)])
       (simp_all add: builders)
  have 7: "omitted cfg [Key ''endpoints'', Index i, Key ''usagePlan''] ''maxRequestNum'' \<longrightarrow>
          get_path res [Key ''endpoints'', Index i, Key ''usagePlan'', Key ''maxRequestNum'']
            = Some (JNum (- 1))" for i
    by (intro impI, erule sub[OF _ endpointKeys_mem(2) _ distinct_keys(4) key_facts(7)])
       (simp_all add: builders)
  have 8: "omitted cfg [Key ''endpoints'', Index i, Key ''usagePlan''] ''maxRequestNumPreSec'' \<longrightarrow>
          get_path res [Key ''endpoints'', Index i, Key ''usagePlan'', Key ''maxRequestNumPreSec'']
            = Some (JNum 1000)" for i
    by (intro impI, erule sub[OF _ endpointKeys_mem(2) _ distinct_keys(4) key_facts(8)])
       (simp_all add: builders)
  have 9: "omitted cfg [Key ''endpoints'', Index i, Key ''auth''] ''serviceTimeout'' \<longrightarrow>
          get_path res [Key ''endpoints'', Index i, Key ''auth'', Key ''serviceTimeout'']
            = Some (JNum 15)" for i
    by (intro impI, erule sub[OF _ endpointKeys_mem(3) _ distinct_keys(5) key_facts(9)])
       (simp_all add: builders)
  from acc 1 2 3 4 5 6 7 8 9 show ?thesis by blast
qed

theorem validate_populates_defaults_witness:
  "ServiceConfig_shape 1
     (JObj [(''serviceName'', JStr ''svc''),
            (''endpoints'',
               JArr [JObj [(''path'', JStr ''/''), (''method'', JStr ''GET''),
                           (''function'', JObj [(''functionName'', JStr ''f'')]),
                           (''usagePlan'', JObj [(''usagePlanName'', JStr ''pl'')]),
                           (''auth'', JObj [(''secretName'', JStr ''s'')])]])])
   \<and> omitted (JObj [(''serviceName'', JStr ''svc''),
                  (''endpoints'',
                     JArr [JObj [(''path'', JStr ''/''), (''method'', JStr ''GET''),
                                 (''function'', JObj [(''functionName'', JStr ''f'')]),
                                 (''usagePlan'', JObj [(''usagePlanName'', JStr ''pl'')]),
                                 (''auth'', JObj [(''secretName'', JStr ''s'')])]])])
      [Key ''endpoints'', Index 0, Key ''usagePlan''] ''maxRequestNum''
   \<and> (\<exists>res.
        Validate \<lparr> JSON_parse = (\<lambda>_. None), toNumber = (\<lambda>_. NotANumber) \<rparr>
          (Some (JObj [(''serviceName'', JStr ''svc''),
                       (''endpoints'',
                          JArr [JObj [(''path'', JStr ''/''), (''method'', JStr ''GET''),
                                      (''function'', JObj [(''functionName'', JStr ''f'')]),
                                      (''usagePlan'', JObj [(''usagePlanName'', JStr ''pl'')]),
                                      (''auth'', JObj [(''secretName'', JStr ''s'')])]])]))
          = Inr (Some res)
        \<and> get_path res [Key ''region''] = Some (JStr ''ap-guangzhou'')
        \<and> get_path res [Key ''protocol''] = Some (JStr ''http'')
        \<and> get_path res [Key ''environment''] = Some (JStr ''release'')
        \<and> get_path res [Key ''endpoints'', Index 0, Key ''enableCORS''] = Some (JBool False)
        \<and> get_path res [Key ''endpoints'', Index 0, Key ''function'', Key ''isIntegratedResponse'']
            = Some (JBool False)
        \<and> get_path res [Key ''endpoints'', Index 0, Key ''function'', Key ''functionQualifier'']
            = Some (JStr ''$LATEST'')
        \<and> get_path res [Key ''endpoints'', Index 0, Key ''usagePlan'', Key ''maxRequestNum'']
            = Some (JNum (- 1))
        \<and> get_path res [Key ''endpoints'', Index 0, Key ''usagePlan'', Key ''maxRequestNumPreSec'']
            = Some (JNum 1000)
        \<and> get_path res [Key ''endpoints'', Index 0, Key ''auth'', Key ''serviceTimeout'']
            = Some (JNum 15))"
proof -
  let ?e = "\<lparr> JSON_parse = (\<lambda>_. None), toNumber = (\<lambda>_. NotANumber) \<rparr>"
  let ?cfg = "JObj [(''serviceName'', JStr ''svc''),
                  (''endpoints'',
                     JArr [JObj [(''path'', JStr ''/''), (''method'', JStr ''GET''),
                                 (''function'', JObj [(''functionName'', JStr ''f'')]),
                                 (''usagePlan'', JObj [(''usagePlanName'', JStr ''pl'')]),
                                 (''auth'', JObj [(''secretName'', JStr ''s'')])]])]"
  have sh: "ServiceConfig_shape 1 ?cfg"
    by code_simp
  have om: "omitted ?cfg [] ''region''" "omitted ?cfg [] ''protocol''" "omitted ?cfg [] ''environment''"
    "omitted ?cfg [Key ''endpoints'', Index 0] ''enableCORS''"
    "omitted ?cfg [Key ''endpoints'', Index 0, Key ''function''] ''isIntegratedResponse''"
    "omitted ?cfg [Key ''endpoints'', Index 0, Key ''function''] ''functionQualifier''"
    "omitted ?cfg [Key ''endpoints'', Index 0, Key ''usagePlan''] ''maxRequestNum''"
    "omitted ?cfg [Key ''endpoints'', Index 0, Key ''usagePlan''] ''maxRequestNumPreSec''"
    "omitted ?cfg [Key ''endpoints'', Index 0, Key ''auth''] ''serviceTimeout''"
    by (simp_all add: omitted_def get_prop_def)
  from validate_populates_defaults[OF sh, of ?e] om
  have "\<exists>res.
        Validate ?e (Some ?cfg) = Inr (Some res)
        \<and> get_path res [Key ''region''] = Some (JStr ''ap-guangzhou'')
        \<and> get_path res [Key ''protocol''] = Some (JStr ''http'')
        \<and> get_path res [Key ''environment''] = Some (JStr ''release'')
        \<and> get_path res [Key ''endpoints'', Index 0, Key ''enableCORS''] = Some (JBool False)
        \<and> get_path res [Key ''endpoints'', Index 0, Key ''function'', Key ''isIntegratedResponse'']
            = Some (JBool False)
        \<and> get_path res [Key ''endpoints'', Index 0, Key ''function'', Key ''functionQualifier'']
            = Some (JStr ''$LATEST'')
        \<and> get_path res [Key ''endpoints'', Index 0, Key ''usagePlan'', Key ''maxRequestNum'']
            = Some (JNum (- 1))
        \<and> get_path res [Key ''endpoints'', Index 0, Key ''usagePlan'', Key ''maxRequestNumPreSec'']
            = Some (JNum 1000)
        \<and> get_path res [Key ''endpoints'', Index 0, Key ''auth'', Key ''serviceTimeout'']
            = Some (JNum 15)"
    by blast
  with sh om(7) show ?thesis
    by (intro conjI)
qed

text \<open>
  C6, as the claim states it, fails for a configuration that has the shape of the data
  model as section 3 words it and holds an empty string: \<open>description\<close>, optional and of at
  most 200 characters, and \<open>region\<close>, a string, may be empty there, and \<open>Validate\<close> rejects
  both.
\<close>

theorem empty_string_rejected:
  \<open>ServiceConfig_shape 0
     (JObj [(''serviceName'', JStr ''svc''), (''description'', JStr []), (''endpoints'', JArr [])])
   \<and> Validate \<lparr> JSON_parse = (\<lambda>_. None), toNumber = (\<lambda>_. NotANumber) \<rparr>
        (Some (JObj [(''serviceName'', JStr ''svc''), (''description'', JStr []),
                     (''endpoints'', JArr [])]))
      = Inl (ValidationError
               ''child "description" fails because ["description" is not allowed to be empty]'')
   \<and> ServiceConfig_shape 0
     (JObj [(''region'', JStr []), (''serviceName'', JStr ''svc''), (''endpoints'', JArr [])])
   \<and> Validate \<lparr> JSON_parse = (\<lambda>_. None), toNumber = (\<lambda>_. NotANumber) \<rparr>
        (Some (JObj [(''region'', JStr []), (''serviceName'', JStr ''svc''),
                     (''endpoints'', JArr [])]))
      = Inl (ValidationError
               ''child "region" fails because ["region" is not allowed to be empty]'')\<close>
proof -
  have 1: "ServiceConfig_shape 0
     (JObj [(''serviceName'', JStr ''svc''), (''description'', JStr []), (''endpoints'', JArr [])])"
    by code_simp
  have 2: \<open>Validate \<lparr> JSON_parse = (\<lambda>_. None), toNumber = (\<lambda>_. NotANumber) \<rparr>
        (Some (JObj [(''serviceName'', JStr ''svc''), (''description'', JStr []),
                     (''endpoints'', JArr [])]))
      = Inl (ValidationError
               ''child "description" fails because ["description" is not allowed to be empty]'')\<close>
    by code_simp
  have 3: "ServiceConfig_shape 0
     (JObj [(''region'', JStr []), (''serviceName'', JStr ''svc''), (''endpoints'', JArr [])])"
    by code_simp
  have 4: \<open>Validate \<lparr> JSON_parse = (\<lambda>_. None), toNumber = (\<lambda>_. NotANumber) \<rparr>
        (Some (JObj [(''region'', JStr []), (''serviceName'', JStr ''svc''),
                     (''endpoints'', JArr [])]))
      = Inl (ValidationError
               ''child "region" fails because ["region" is not allowed to be empty]'')\<close>
    by code_simp
  from 1 2 3 4 show ?thesis
    by (intro conjI)
qed

end
